theory Spec2Isabelle
  imports Main "HOL-Library.Word" "HOL-Library.Sublist"
begin

section \<open>Strings\<close>

text \<open>
  A JavaScript string is a sequence of UTF-16 code units; \<open>length\<close>, \<open>slice\<close>,
  \<open>includes\<close> and regular expressions without the \<open>u\<close> flag all work on code units.
  String literals of the source are written through \<open>js\<close>, which reads an ASCII literal
  as code units.
\<close>

type_synonym code_unit = "16 word"
type_synonym js_string = "code_unit list"

definition js :: "string \<Rightarrow> js_string" where
  "js s = map (\<lambda>c. of_nat (of_char c)) s"

text \<open>The class \<open>\s\<close> of ECMAScript regular expressions: WhiteSpace and LineTerminator.\<close>

definition is_whitespace :: "code_unit \<Rightarrow> bool" where
  "is_whitespace c \<longleftrightarrow>
     c = 0x09 \<or> c = 0x0A \<or> c = 0x0B \<or> c = 0x0C \<or> c = 0x0D \<or> c = 0x20 \<or> c = 0xA0 \<or>
     c = 0x1680 \<or> (0x2000 \<le> c \<and> c \<le> 0x200A) \<or> c = 0x2028 \<or> c = 0x2029 \<or>
     c = 0x202F \<or> c = 0x205F \<or> c = 0x3000 \<or> c = 0xFEFF"

text \<open>The code units \<open>.\<close> does not match (no \<open>s\<close> flag): the line terminators.\<close>

definition is_line_terminator :: "code_unit \<Rightarrow> bool" where
  "is_line_terminator c \<longleftrightarrow> c = 0x0A \<or> c = 0x0D \<or> c = 0x2028 \<or> c = 0x2029"

section \<open>The regular expressions of generateSingleFrame\<close>

text \<open>
  \<open>content.match(/!\[.*?\]\((.*?)\)/)\<close>. The matcher is a backtracking one: the pattern is
  tried at each start position from the left, and a lazy \<open>.*?\<close> first tries to go on
  with the rest of the pattern and only then takes one more code unit.

  \<open>md_url\<close> is \<open>(.*?)\)\<close> at the current position and returns capture group 1.
\<close>

fun md_url :: "js_string \<Rightarrow> js_string option" where
  "md_url [] = None"
| "md_url (c # cs) =
     (if c = 0x29 then Some []
      else if is_line_terminator c then None
      else map_option ((#) c) (md_url cs))"

text \<open>\<open>md_alt\<close> is \<open>.*?\]\((.*?)\)\<close> at the current position.\<close>

fun md_alt :: "js_string \<Rightarrow> js_string option" where
  "md_alt [] = None"
| "md_alt (c # cs) =
     (case (case cs of d # ds \<Rightarrow> if c = 0x5D \<and> d = 0x28 then md_url ds else None
                     | [] \<Rightarrow> None) of
        Some u \<Rightarrow> Some u
      | None \<Rightarrow> if is_line_terminator c then None else md_alt cs)"

text \<open>\<open>md_at\<close> is the whole pattern anchored at the current position.\<close>

fun md_at :: "js_string \<Rightarrow> js_string option" where
  "md_at (c # d # cs) = (if c = 0x21 \<and> d = 0x5B then md_alt cs else None)"
| "md_at _ = None"

text \<open>
  \<open>markdownMatch\<close> is \<open>None\<close> when \<open>match\<close> returns \<open>null\<close>, and otherwise
  \<open>Some\<close> of \<open>markdownMatch[1]\<close>, the capture of the leftmost match.
\<close>

fun markdownMatch :: "js_string \<Rightarrow> js_string option" where
  "markdownMatch [] = None"
| "markdownMatch (c # cs) =
     (case md_at (c # cs) of Some u \<Rightarrow> Some u | None \<Rightarrow> markdownMatch cs)"

text \<open>
  \<open>content.match(/(https?:\/\/[^\s]+)/)\<close>. \<open>url_at\<close> is the pattern anchored at the
  current position: the scheme, then the longest non-empty run without whitespace.
\<close>

definition url_rest :: "js_string \<Rightarrow> js_string \<Rightarrow> js_string option" where
  "url_rest scheme cs =
     (let run = takeWhile (\<lambda>c. \<not> is_whitespace c) cs
      in if run = [] then None else Some (scheme @ run))"

definition url_at :: "js_string \<Rightarrow> js_string option" where
  "url_at s =
     (if take 8 s = js ''https://'' then url_rest (js ''https://'') (drop 8 s)
      else if take 7 s = js ''http://'' then url_rest (js ''http://'') (drop 7 s)
      else None)"

text \<open>
  \<open>urlMatch\<close> is \<open>None\<close> when \<open>match\<close> returns \<open>null\<close>, and otherwise \<open>Some\<close> of
  \<open>urlMatch[0]\<close>, the text of the leftmost match.
\<close>

fun urlMatch :: "js_string \<Rightarrow> js_string option" where
  "urlMatch [] = None"
| "urlMatch (c # cs) =
     (case url_at (c # cs) of Some u \<Rightarrow> Some u | None \<Rightarrow> urlMatch cs)"

section \<open>Errors, blobs and the environment\<close>

text \<open>
  Every \<open>throw\<close> of the source is a value. \<open>ApiKeyNotFound\<close>, \<open>NoContent\<close>,
  \<open>ImageNotFound\<close> and \<open>AbortedByUser\<close> are the four \<open>new Error(...)\<close> of the source,
  told apart by their messages; \<open>ImageNotFound\<close> carries \<open>content.slice(0, 100)\<close>.
  \<open>ServiceFailure\<close> is whatever the chat completion call throws, and
  \<open>InvalidCharacterError\<close> is the exception of \<open>atob\<close>, with the browser's message.
\<close>

datatype error =
    ApiKeyNotFound
  | ServiceFailure js_string
  | NoContent
  | ImageNotFound js_string
  | AbortedByUser
  | InvalidCharacterError

fun message :: "error \<Rightarrow> js_string" where
  "message ApiKeyNotFound = js ''API Key not found. Please select an API Key.''"
| "message (ServiceFailure m) = m"
| "message NoContent = js ''OpenAI API returned no content.''"
| "message (ImageNotFound p) = js ''Could not find image in response: '' @ p @ js ''...''"
| "message AbortedByUser = js ''Generation aborted by user.''"
| "message InvalidCharacterError = js ''The string to be decoded is not correctly encoded.''"

record blob =
  blob_bytes :: "8 word list"
  blob_type :: js_string

text \<open>The arguments of one call of generateSingleFrame, which determine the request sent.\<close>

record frame_request =
  imageBase64 :: js_string
  mimeType :: js_string
  prompt :: js_string
  index :: nat
  total :: int

text \<open>
  What \<open>openai.chat.completions.create\<close> does: it throws, or it returns a response whose
  \<open>choices[0]?.message?.content\<close> is a string or is missing (\<open>None\<close>).
\<close>

datatype completion = Rejects js_string | Returns "js_string option"

text \<open>\<open>window.aistudio\<close>, as far as checkApiKey looks at it.\<close>

datatype host_answer = Throws | Answers bool

datatype aistudio_host =
    NoWindow
  | NoAistudio
  | NoHasSelectedApiKey
  | HasSelectedApiKey host_answer

text \<open>
  Everything outside the program: the process environment, the host object, the remote
  service, the network, \<open>URL.createObjectURL\<close>, and the scheduling of the requests of
  one batch (the join of a batch sees the outcome of frame \<open>j\<close> before that of frame
  \<open>j'\<close> when \<open>settle_rank j < settle_rank j'\<close>, and in index order when the ranks are
  equal). \<open>fetch_blob\<close> is \<open>None\<close> when \<open>fetch\<close> or \<open>res.blob()\<close> throws.
\<close>

record environment =
  API_KEY :: "js_string option"
  aistudio :: aistudio_host
  chat_completions_create :: "frame_request \<Rightarrow> completion"
  fetch_blob :: "js_string \<Rightarrow> blob option"
  createObjectURL :: "blob \<Rightarrow> js_string"
  settle_rank :: "nat \<Rightarrow> nat"

text \<open>
  The network requests that a call causes. The log of a call holds all of them, also
  those of a frame that is still on its way when the join of its batch rejects.
\<close>

datatype event = ChatRequest frame_request | FetchRequest js_string

section \<open>getAiClient\<close>

record client =
  apiKey :: js_string
  baseURL :: js_string

definition getAiClient :: "environment \<Rightarrow> error + client" where
  "getAiClient env =
     (case API_KEY env of
        None \<Rightarrow> Inl ApiKeyNotFound
      | Some [] \<Rightarrow> Inl ApiKeyNotFound
      | Some (c # cs) \<Rightarrow>
          Inr \<lparr>apiKey = c # cs, baseURL = js ''https://ark.cn-beijing.volces.com/api/v3''\<rparr>)"

section \<open>atob and b64toBlob\<close>

text \<open>
  \<open>atob\<close> is the browser's, the forgiving-base64 decode of the HTML standard: ASCII
  whitespace is removed; if the length is then a multiple of 4, one or two trailing
  \<open>=\<close> are removed; a length of 1 modulo 4 fails; any code unit outside
  \<open>A-Z a-z 0-9 + /\<close> fails; four code units give three bytes, a rest of three gives
  two bytes and a rest of two gives one byte. The result is the string of the bytes.
\<close>

definition is_ascii_whitespace :: "code_unit \<Rightarrow> bool" where
  "is_ascii_whitespace c \<longleftrightarrow> c = 0x09 \<or> c = 0x0A \<or> c = 0x0C \<or> c = 0x0D \<or> c = 0x20"

definition b64_value :: "code_unit \<Rightarrow> nat option" where
  "b64_value c =
     (if 0x41 \<le> c \<and> c \<le> 0x5A then Some (unat c - 65)
      else if 0x61 \<le> c \<and> c \<le> 0x7A then Some (unat c - 71)
      else if 0x30 \<le> c \<and> c \<le> 0x39 then Some (unat c + 4)
      else if c = 0x2B then Some 62
      else if c = 0x2F then Some 63
      else None)"

definition strip_padding :: "js_string \<Rightarrow> js_string" where
  "strip_padding d =
     (if length d mod 4 = 0 \<and> d \<noteq> [] \<and> last d = 0x3D then
        (if butlast d \<noteq> [] \<and> last (butlast d) = 0x3D then butlast (butlast d)
         else butlast d)
      else d)"

fun b64_bytes :: "nat list \<Rightarrow> js_string" where
  "b64_bytes (a # b # c # d # rest) =
     (let n = ((a * 64 + b) * 64 + c) * 64 + d
      in of_nat (n div 65536) # of_nat (n div 256 mod 256) # of_nat (n mod 256) #
         b64_bytes rest)"
| "b64_bytes [a, b, c] =
     (let n = ((a * 64 + b) * 64 + c) div 4 in [of_nat (n div 256), of_nat (n mod 256)])"
| "b64_bytes [a, b] = [of_nat ((a * 64 + b) div 16)]"
| "b64_bytes _ = []"

definition atob :: "js_string \<Rightarrow> error + js_string" where
  "atob data =
     (let d = strip_padding (filter (\<lambda>c. \<not> is_ascii_whitespace c) data)
      in if length d mod 4 = 1 then Inl InvalidCharacterError
         else (case those (map b64_value d) of
                 None \<Rightarrow> Inl InvalidCharacterError
               | Some vs \<Rightarrow> Inr (b64_bytes vs)))"

text \<open>
  b64toBlob with the default \<open>sliceSize = 512\<close>, the only one the source uses. The loop
  over \<open>offset\<close> makes one \<open>Uint8Array\<close> of the char codes of each slice; the blob is
  their concatenation.
\<close>

definition sliceSize :: nat where
  "sliceSize = 512"

function byteArrays :: "js_string \<Rightarrow> nat \<Rightarrow> 8 word list list" where
  "byteArrays byteCharacters offset =
     (if offset < length byteCharacters then
        map ucast (take sliceSize (drop offset byteCharacters)) #
        byteArrays byteCharacters (offset + sliceSize)
      else [])"
  by pat_completeness auto
termination
  by (relation "measure (\<lambda>(byteCharacters, offset). length byteCharacters - offset)")
     (auto simp: sliceSize_def)

declare byteArrays.simps [simp del]

definition b64toBlob :: "js_string \<Rightarrow> js_string \<Rightarrow> error + blob" where
  "b64toBlob b64Data contentType =
     (case atob b64Data of
        Inl e \<Rightarrow> Inl e
      | Inr byteCharacters \<Rightarrow>
          Inr \<lparr>blob_bytes = concat (byteArrays byteCharacters 0), blob_type = contentType\<rparr>)"

section \<open>fetchAndCreateBlobUrl\<close>

text \<open>The \<open>catch\<close> returns the URL it was given; the function never throws.\<close>

definition fetchAndCreateBlobUrl :: "environment \<Rightarrow> js_string \<Rightarrow> js_string \<times> event list" where
  "fetchAndCreateBlobUrl env url =
     (case fetch_blob env url of
        Some b \<Rightarrow> (createObjectURL env b, [FetchRequest url])
      | None \<Rightarrow> (url, [FetchRequest url]))"

section \<open>generateSingleFrame\<close>

text \<open>
  \<open>m && m[k]\<close>: the matched text when there is a match and that text is not the empty
  string.
\<close>

fun truthy_match :: "js_string option \<Rightarrow> js_string option" where
  "truthy_match (Some (c # cs)) = Some (c # cs)"
| "truthy_match _ = None"

text \<open>
  The three strategies of lines 74 to 95, in the order of the source, with the strategy
  that returned as the constructor. \<open>NoImage\<close> is reaching the final \<open>throw\<close>.
\<close>

datatype resolution =
    MarkdownImage js_string
  | RawUrl js_string
  | Base64 blob
  | NoImage

definition parse_content :: "js_string \<Rightarrow> resolution" where
  "parse_content content =
     (case truthy_match (markdownMatch content) of
        Some u \<Rightarrow> MarkdownImage u
      | None \<Rightarrow>
         (case truthy_match (urlMatch content) of
            Some u \<Rightarrow> RawUrl u
          | None \<Rightarrow>
             (if length content > 100 \<and> 0x20 \<notin> set content then
                (case b64toBlob content (js ''image/png'') of
                   Inr b \<Rightarrow> Base64 b
                 | Inl e \<Rightarrow> NoImage)
              else NoImage)))"

definition generateSingleFrame ::
  "environment \<Rightarrow> js_string \<Rightarrow> js_string \<Rightarrow> js_string \<Rightarrow> nat \<Rightarrow> int \<Rightarrow>
     (error + js_string) \<times> event list" where
  "generateSingleFrame env img mime action idx tot =
     (case getAiClient env of
        Inl e \<Rightarrow> (Inl e, [])
      | Inr openai \<Rightarrow>
         (let request = \<lparr>imageBase64 = img, mimeType = mime, prompt = action,
                          index = idx, total = tot\<rparr>
          in case chat_completions_create env request of
               Rejects m \<Rightarrow> (Inl (ServiceFailure m), [ChatRequest request])
             | Returns None \<Rightarrow> (Inl NoContent, [ChatRequest request])
             | Returns (Some []) \<Rightarrow> (Inl NoContent, [ChatRequest request])
             | Returns (Some (c # cs)) \<Rightarrow>
                (case parse_content (c # cs) of
                   MarkdownImage u \<Rightarrow>
                     (case fetchAndCreateBlobUrl env u of
                        (r, evs) \<Rightarrow> (Inr r, ChatRequest request # evs))
                 | RawUrl u \<Rightarrow>
                     (case fetchAndCreateBlobUrl env u of
                        (r, evs) \<Rightarrow> (Inr r, ChatRequest request # evs))
                 | Base64 b \<Rightarrow> (Inr (createObjectURL env b), [ChatRequest request])
                 | NoImage \<Rightarrow>
                     (Inl (ImageNotFound (take 100 (c # cs))), [ChatRequest request]))))"

section \<open>checkApiKey\<close>

definition checkApiKey :: "environment \<Rightarrow> bool" where
  "checkApiKey env =
     (case API_KEY env of
        Some (c # cs) \<Rightarrow> True
      | _ \<Rightarrow>
         (case aistudio env of
            HasSelectedApiKey (Answers b) \<Rightarrow> b
          | HasSelectedApiKey Throws \<Rightarrow> False
          | _ \<Rightarrow> False))"

section \<open>Promise.all\<close>

text \<open>
  The join of \<open>Promise.all\<close> keeps one slot for each promise. It is told of the
  outcomes one at a time, each with the position of its promise, in the order in which
  they settle: a value is stored in the slot of its promise, and the first error rejects
  the join. Once every slot is filled the join resolves with the slots in the order of
  the promises; \<open>None\<close> is a join that stays pending.
\<close>

fun settle :: "'a option list \<Rightarrow> (nat \<times> (error + 'a)) list \<Rightarrow> (error + 'a list) option" where
  "settle slots [] = map_option Inr (those slots)"
| "settle slots ((k, Inl e) # rest) = Some (Inl e)"
| "settle slots ((k, Inr v) # rest) = settle (slots[k := Some v]) rest"

definition promise_all :: "nat list \<Rightarrow> (error + 'a) list \<Rightarrow> (error + 'a list) option" where
  "promise_all order ps =
     settle (replicate (length ps) None) (map (\<lambda>k. (k, ps ! k)) order)"

section \<open>generateAnimationFrames\<close>

text \<open>
  \<open>signal?.aborted\<close> is read at the boundaries between batches only: boundary \<open>b\<close> is
  the moment when \<open>b\<close> batches have been joined. Nothing is awaited between the check
  after a batch and the check before the next one, so both read the same boundary. A
  signal never goes back, so it is given by the first boundary at which it reads
  aborted; an absent signal is \<open>None\<close>.
\<close>

datatype abort_signal = NeverAborted | AbortedFrom nat

fun aborted :: "abort_signal option \<Rightarrow> nat \<Rightarrow> bool" where
  "aborted None b = False"
| "aborted (Some NeverAborted) b = False"
| "aborted (Some (AbortedFrom t)) b = (t \<le> b)"

definition batchSize :: nat where
  "batchSize = 3"

text \<open>
  One batch: the inner loop calls generateSingleFrame for \<open>j\<close> from \<open>i\<close> up to
  \<open>Math.min(i + batchSize, count)\<close>, each after its delay, and \<open>Promise.all\<close> joins
  the calls. All calls of the batch are made before the join, whatever their outcomes.
  The delays only move the calls in time; their effect is part of \<open>settle_rank\<close>. The
  log lists the requests of the calls in the order of \<open>j\<close>.
\<close>

definition run_batch ::
  "environment \<Rightarrow> js_string \<Rightarrow> js_string \<Rightarrow> js_string \<Rightarrow> int \<Rightarrow> nat \<Rightarrow>
     (error + js_string list) option \<times> event list" where
  "run_batch env img mime action count i =
     (let batchPromises =
            map (\<lambda>j. generateSingleFrame env img mime action j count)
              [i ..< nat (min (int i + int batchSize) count)];
          order = sort_key (\<lambda>p. settle_rank env (i + p)) [0 ..< length batchPromises]
      in (promise_all order (map fst batchPromises), concat (map snd batchPromises)))"

text \<open>
  The outer loop, with the loop variable \<open>i\<close>, the array \<open>urls\<close> and the log of the
  requests issued so far. \<open>count\<close> is a JavaScript number; the model takes the
  integers, negative ones included. The result is \<open>None\<close> when the call never returns.
\<close>

function batches ::
  "environment \<Rightarrow> js_string \<Rightarrow> js_string \<Rightarrow> js_string \<Rightarrow> int \<Rightarrow> abort_signal option \<Rightarrow>
     nat \<Rightarrow> js_string list \<Rightarrow> event list \<Rightarrow> ((error + js_string list) \<times> event list) option" where
  "batches env img mime action count signal i urls log =
     (if int i < count then
        if aborted signal (i div batchSize) then Some (Inl AbortedByUser, log)
        else
          (case run_batch env img mime action count i of
             (None, evs) \<Rightarrow> None
           | (Some (Inl e), evs) \<Rightarrow> Some (Inl e, log @ evs)
           | (Some (Inr batchResults), evs) \<Rightarrow>
               if aborted signal (i div batchSize + 1) then Some (Inl AbortedByUser, log @ evs)
               else batches env img mime action count signal (i + batchSize)
                      (urls @ batchResults) (log @ evs))
      else Some (Inr urls, log))"
  by pat_completeness auto
termination
  by (relation "measure (\<lambda>(env, img, mime, action, count, signal, i, urls, log). nat (count - int i))")
     (auto simp: batchSize_def)

declare batches.simps [simp del]

definition generateAnimationFrames ::
  "environment \<Rightarrow> js_string \<Rightarrow> js_string \<Rightarrow> js_string \<Rightarrow> int \<Rightarrow> abort_signal option \<Rightarrow>
     ((error + js_string list) \<times> event list) option" where
  "generateAnimationFrames env img mime action count signal =
     batches env img mime action count signal 0 [] []"

section \<open>Example environments and replies\<close>

text \<open>
  A service that answers frame \<open>j\<close> with the text \<open>https://h/j\<close>, on a network where
  every fetch fails, with a schedule on which the later frames of a batch settle first.
\<close>

definition env_urls :: environment where
  "env_urls =
     \<lparr>API_KEY = Some (js ''sk-1''), aistudio = NoWindow,
      chat_completions_create = (\<lambda>r. Returns (Some (js ''https://h/'' @ [of_nat (index r) + 0x30]))),
      fetch_blob = (\<lambda>u. None), createObjectURL = (\<lambda>b. js ''blob:1''),
      settle_rank = (\<lambda>j. 10 - j)\<rparr>"




text \<open>A service that answers every request with the same text.\<close>

definition env_reply :: "js_string \<Rightarrow> environment" where
  "env_reply text = env_urls\<lparr>chat_completions_create := (\<lambda>r. Returns (Some text))\<rparr>"

text \<open>
  No key in the process environment, on a host whose \<open>window.aistudio\<close> says that a key
  has been selected.
\<close>

definition env_studio :: environment where
  "env_studio = env_urls\<lparr>API_KEY := None, aistudio := HasSelectedApiKey (Answers True)\<rparr>"

text \<open>
  Base64 text wrapped at 60 columns: 60 times \<open>A\<close>, a line feed, 60 times \<open>A\<close>.
\<close>

definition wrapped_base64 :: js_string where
  "wrapped_base64 = replicate 60 0x41 @ [0x0A] @ replicate 60 0x41"

text \<open>A URL of 108 code units: \<open>https://\<close> and 100 times \<open>a\<close>.\<close>

definition long_url :: js_string where
  "long_url = js ''https://'' @ replicate 100 0x61"

text \<open>
  The wording of the specification, "a whitespace-free run of at least 100 characters":
  \<open>spec_longest_run\<close> is the length of the longest run of code units without whitespace.
\<close>

fun longest_run_from :: "nat \<Rightarrow> nat \<Rightarrow> js_string \<Rightarrow> nat" where
  "longest_run_from cur best [] = max cur best"
| "longest_run_from cur best (c # cs) =
     (if is_whitespace c then longest_run_from 0 (max cur best) cs
      else longest_run_from (Suc cur) best cs)"

definition spec_longest_run :: "js_string \<Rightarrow> nat" where
  "spec_longest_run s = longest_run_from 0 0 s"



section \<open>Properties of the join\<close>

lemma those_eq_Some: "those xs = Some vs \<longleftrightarrow> xs = map Some vs"
proof (induction xs arbitrary: vs)
  case Nil
  then show ?case by auto
next
  case (Cons x xs)
  then show ?case by (cases x) (auto simp: map_eq_Cons_conv)
qed

lemma those_eq_None: "those xs = None \<longleftrightarrow> None \<in> set xs"
proof (induction xs)
  case Nil
  then show ?case by simp
next
  case (Cons x xs)
  then show ?case by (cases x) auto
qed

lemma settle_rejected:
  "settle slots (map (\<lambda>k. (k, ps ! k)) order) = Some (Inl e) \<Longrightarrow> \<exists>k\<in>set order. ps ! k = Inl e"
proof (induction order arbitrary: slots)
  case Nil
  then show ?case by auto
next
  case (Cons k order)
  then show ?case by (cases "ps ! k") auto
qed

lemma settle_fulfilled:
  "settle slots (map (\<lambda>k. (k, ps ! k)) order) = Some (Inr vs) \<Longrightarrow>
     length vs = length slots \<and>
     (\<forall>k<length slots. if k \<in> set order then ps ! k = Inr (vs ! k)
                        else slots ! k = Some (vs ! k))"
proof (induction order arbitrary: slots)
  case Nil
  then show ?case by (auto simp: those_eq_Some)
next
  case (Cons k order)
  show ?case
  proof (cases "ps ! k")
    case (Inl e)
    with Cons.prems show ?thesis by simp
  next
    case (Inr v)
    with Cons.prems have "settle (slots[k := Some v]) (map (\<lambda>k. (k, ps ! k)) order) = Some (Inr vs)"
      by simp
    from Cons.IH [OF this] have len: "length vs = length slots"
      and ih: "\<And>k'. k' < length slots \<Longrightarrow>
                 (if k' \<in> set order then ps ! k' = Inr (vs ! k')
                  else slots[k := Some v] ! k' = Some (vs ! k'))"
      by auto
    have "if k' \<in> set (k # order) then ps ! k' = Inr (vs ! k') else slots ! k' = Some (vs ! k')"
      if "k' < length slots" for k'
      using ih [OF that] that Inr by (cases "k' = k") (auto split: if_splits)
    with len show ?thesis by blast
  qed
qed

lemma settle_pending:
  "settle slots (map (\<lambda>k. (k, ps ! k)) order) = None \<Longrightarrow>
     \<exists>k<length slots. k \<notin> set order \<and> slots ! k = None"
proof (induction order arbitrary: slots)
  case Nil
  then show ?case by (auto simp: those_eq_None in_set_conv_nth)
next
  case (Cons k order)
  show ?case
  proof (cases "ps ! k")
    case (Inl e)
    with Cons.prems show ?thesis by simp
  next
    case (Inr v)
    with Cons.prems have "settle (slots[k := Some v]) (map (\<lambda>k. (k, ps ! k)) order) = None"
      by simp
    from Cons.IH [OF this] obtain k' where "k' < length slots" "k' \<notin> set order"
      "slots[k := Some v] ! k' = None" by auto
    then have "k' < length slots \<and> k' \<notin> set (k # order) \<and> slots ! k' = None"
      by (cases "k' = k") auto
    then show ?thesis by blast
  qed
qed

lemma promise_all_settles:
  "{..<length ps} \<subseteq> set order \<Longrightarrow> promise_all order ps \<noteq> None"
  unfolding promise_all_def using settle_pending [of "replicate (length ps) None" ps order]
  by auto

lemma settle_fulfilled_nth:
  assumes "settle slots (map (\<lambda>k. (k, ps ! k)) order) = Some (Inr vs)"
    and "k < length slots" and "k \<in> set order"
  shows "ps ! k = Inr (vs ! k)"
  using settle_fulfilled [OF assms(1)] assms(2,3) by metis

lemma promise_all_fulfilled:
  assumes "promise_all order ps = Some (Inr vs)" and "{..<length ps} \<subseteq> set order"
  shows "ps = map Inr vs"
proof -
  from assms(1)
  have st: "settle (replicate (length ps) None) (map (\<lambda>k. (k, ps ! k)) order) = Some (Inr vs)"
    by (simp add: promise_all_def)
  from settle_fulfilled [OF st] have len: "length vs = length ps"
    by simp
  have "ps ! k = Inr (vs ! k)" if "k < length ps" for k
  proof -
    from that assms(2) have "k \<in> set order" by auto
    with settle_fulfilled_nth [OF st] that show ?thesis by simp
  qed
  with len show ?thesis by (auto intro: nth_equalityI)
qed

lemma promise_all_rejected:
  assumes "promise_all order ps = Some (Inl e)" and "set order \<subseteq> {..<length ps}"
  shows "Inl e \<in> set ps"
proof -
  from assms(1) obtain k where k: "k \<in> set order" "ps ! k = Inl e"
    unfolding promise_all_def using settle_rejected by blast
  with assms(2) have "k < length ps" by auto
  with k(2) show ?thesis by (metis nth_mem)
qed

section \<open>The matchers find the matches of the two patterns\<close>


lemma md_url_matches_iff:
  "md_url s \<noteq> None \<longleftrightarrow>
     (\<exists>u rest. s = u @ 0x29 # rest \<and> (\<forall>c\<in>set u. \<not> is_line_terminator c))"
proof (induction s)
  case Nil
  then show ?case by simp
next
  case (Cons c cs)
  show ?case
  proof (cases "c = 0x29")
    case True
    then have "c # cs = [] @ 0x29 # cs \<and> (\<forall>c\<in>set []. \<not> is_line_terminator c)" by simp
    with True show ?thesis by (metis md_url.simps(2) option.distinct(1))
  next
    case paren: False
    have shape: "(\<exists>u rest. c # cs = u @ 0x29 # rest \<and> (\<forall>c\<in>set u. \<not> is_line_terminator c)) \<longleftrightarrow>
        \<not> is_line_terminator c \<and>
        (\<exists>u rest. cs = u @ 0x29 # rest \<and> (\<forall>c\<in>set u. \<not> is_line_terminator c))"
      (is "?L \<longleftrightarrow> ?R")
    proof
      assume ?L
      then obtain u rest where u: "c # cs = u @ 0x29 # rest"
        "\<forall>c\<in>set u. \<not> is_line_terminator c" by blast
      with paren obtain u' where "u = c # u'" by (cases u) auto
      with u show ?R by auto
    next
      assume ?R
      then obtain u rest where "cs = u @ 0x29 # rest" "\<forall>c\<in>set u. \<not> is_line_terminator c"
        and "\<not> is_line_terminator c" by blast
      then have "c # cs = (c # u) @ 0x29 # rest \<and> (\<forall>c\<in>set (c # u). \<not> is_line_terminator c)"
        by simp
      then show ?L by blast
    qed
    from paren Cons.IH show ?thesis by (simp only: shape) (auto)
  qed
qed


lemma md_alt_matches_iff:
  "md_alt s \<noteq> None \<longleftrightarrow>
     (\<exists>alt u rest. s = alt @ 0x5D # 0x28 # u @ 0x29 # rest \<and>
        (\<forall>c\<in>set alt. \<not> is_line_terminator c) \<and> (\<forall>c\<in>set u. \<not> is_line_terminator c))"
proof (induction s)
  case Nil
  then show ?case by simp
next
  case (Cons c cs)
  let ?here = "case cs of d # ds \<Rightarrow> if c = 0x5D \<and> d = 0x28 then md_url ds else None | [] \<Rightarrow> None"
  let ?D = "\<lambda>s alt u rest. s = alt @ 0x5D # 0x28 # u @ 0x29 # rest \<and>
        (\<forall>c\<in>set alt. \<not> is_line_terminator c) \<and> (\<forall>c\<in>set u. \<not> is_line_terminator c)"
  have here: "?here \<noteq> None \<longleftrightarrow> (\<exists>u rest. ?D (c # cs) [] u rest)"
  proof (cases cs)
    case Nil
    then show ?thesis by simp
  next
    case (Cons d ds)
    then show ?thesis using md_url_matches_iff [of ds] by auto
  qed
  have later: "\<not> is_line_terminator c \<and> (\<exists>alt u rest. ?D cs alt u rest) \<longleftrightarrow>
      (\<exists>alt u rest. ?D (c # cs) (c # alt) u rest)"
    by auto
  have split: "(\<exists>alt u rest. ?D (c # cs) alt u rest) \<longleftrightarrow>
      (\<exists>u rest. ?D (c # cs) [] u rest) \<or> (\<exists>alt u rest. ?D (c # cs) (c # alt) u rest)"
    (is "?L \<longleftrightarrow> ?R")
  proof
    assume ?L
    then obtain alt u rest where d: "?D (c # cs) alt u rest" by blast
    show ?R
    proof (cases alt)
      case Nil
      with d show ?thesis by blast
    next
      case (Cons a alt')
      with d have "a = c" by simp
      with d Cons show ?thesis by blast
    qed
  next
    assume ?R
    then show ?L by blast
  qed
  show ?case
  proof (cases "?here")
    case (Some u)
    then have "md_alt (c # cs) \<noteq> None" by simp
    moreover from Some here have "\<exists>u rest. ?D (c # cs) [] u rest" by simp
    ultimately show ?thesis using split by blast
  next
    case None
    then have "md_alt (c # cs) \<noteq> None \<longleftrightarrow> \<not> is_line_terminator c \<and> md_alt cs \<noteq> None"
      by simp
    also have "\<dots> \<longleftrightarrow> \<not> is_line_terminator c \<and> (\<exists>alt u rest. ?D cs alt u rest)"
      using Cons.IH by simp
    also have "\<dots> \<longleftrightarrow> (\<exists>alt u rest. ?D (c # cs) (c # alt) u rest)" by (rule later)
    also have "\<dots> \<longleftrightarrow> (\<exists>alt u rest. ?D (c # cs) alt u rest)"
    proof -
      from None here have "\<not> (\<exists>u rest. ?D (c # cs) [] u rest)" by blast
      with split show ?thesis by blast
    qed
    finally show ?thesis .
  qed
qed


lemma md_at_matches_iff:
  "md_at s \<noteq> None \<longleftrightarrow>
     (\<exists>alt u rest. s = 0x21 # 0x5B # alt @ 0x5D # 0x28 # u @ 0x29 # rest \<and>
        (\<forall>c\<in>set alt. \<not> is_line_terminator c) \<and> (\<forall>c\<in>set u. \<not> is_line_terminator c))"
proof (cases s)
  case Nil
  then show ?thesis by simp
next
  case (Cons c t)
  show ?thesis
  proof (cases t)
    case Nil
    with Cons show ?thesis by simp
  next
    case (Cons d cs)
    with \<open>s = c # t\<close> show ?thesis using md_alt_matches_iff [of cs] by auto
  qed
qed

text \<open>
  \<open>markdownMatch\<close> finds a match exactly when the text has a part of the form
  \<open>![\<close> alt \<open>](\<close> url \<open>)\<close> in which neither alt nor url has a line terminator: the language
  of the pattern.
\<close>

lemma markdownMatch_matches_iff:
  "markdownMatch s \<noteq> None \<longleftrightarrow>
     (\<exists>pre alt u rest. s = pre @ 0x21 # 0x5B # alt @ 0x5D # 0x28 # u @ 0x29 # rest \<and>
        (\<forall>c\<in>set alt. \<not> is_line_terminator c) \<and> (\<forall>c\<in>set u. \<not> is_line_terminator c))"
proof (induction s)
  case Nil
  then show ?case by simp
next
  case (Cons c cs)
  let ?D = "\<lambda>s pre alt u rest. s = pre @ 0x21 # 0x5B # alt @ 0x5D # 0x28 # u @ 0x29 # rest \<and>
        (\<forall>c\<in>set alt. \<not> is_line_terminator c) \<and> (\<forall>c\<in>set u. \<not> is_line_terminator c)"
  have here: "md_at (c # cs) \<noteq> None \<longleftrightarrow> (\<exists>alt u rest. ?D (c # cs) [] alt u rest)"
    using md_at_matches_iff [of "c # cs"] by simp
  have later: "(\<exists>pre alt u rest. ?D cs pre alt u rest) \<longleftrightarrow>
      (\<exists>pre alt u rest. ?D (c # cs) (c # pre) alt u rest)"
    by simp
  have split: "(\<exists>pre alt u rest. ?D (c # cs) pre alt u rest) \<longleftrightarrow>
      (\<exists>alt u rest. ?D (c # cs) [] alt u rest) \<or>
      (\<exists>pre alt u rest. ?D (c # cs) (c # pre) alt u rest)"
    (is "?L \<longleftrightarrow> ?R")
  proof
    assume ?L
    then obtain pre alt u rest where d: "?D (c # cs) pre alt u rest" by blast
    show ?R
    proof (cases pre)
      case Nil
      with d show ?thesis by blast
    next
      case (Cons a pre')
      with d have "a = c" by simp
      with d Cons show ?thesis by blast
    qed
  next
    assume ?R
    then show ?L by blast
  qed
  have "markdownMatch (c # cs) \<noteq> None \<longleftrightarrow> md_at (c # cs) \<noteq> None \<or> markdownMatch cs \<noteq> None"
    by (cases "md_at (c # cs)") simp_all
  also have "\<dots> \<longleftrightarrow> (\<exists>alt u rest. ?D (c # cs) [] alt u rest) \<or>
      (\<exists>pre alt u rest. ?D cs pre alt u rest)"
    using here Cons.IH by simp
  also have "\<dots> \<longleftrightarrow> (\<exists>alt u rest. ?D (c # cs) [] alt u rest) \<or>
      (\<exists>pre alt u rest. ?D (c # cs) (c # pre) alt u rest)"
    using later by simp
  also have "\<dots> \<longleftrightarrow> (\<exists>pre alt u rest. ?D (c # cs) pre alt u rest)"
    using split by simp
  finally show ?case .
qed










section \<open>Properties of the matchers and of the decoder\<close>

lemma md_at_head: "md_at s \<noteq> None \<Longrightarrow> \<exists>cs. s = 0x21 # 0x5B # cs"
  by (cases s rule: md_at.cases) (auto split: if_splits)

lemma markdownMatch_no_bang: "0x21 \<notin> set s \<Longrightarrow> markdownMatch s = None"
proof (induction s)
  case Nil
  then show ?case by simp
next
  case (Cons c cs)
  have "md_at (c # cs) = None"
  proof (rule ccontr)
    assume "md_at (c # cs) \<noteq> None"
    from md_at_head [OF this] Cons.prems show False by auto
  qed
  with Cons show ?case by simp
qed

lemma markdownMatch_no_bracket: "0x5B \<notin> set s \<Longrightarrow> markdownMatch s = None"
proof (induction s)
  case Nil
  then show ?case by simp
next
  case (Cons c cs)
  have "md_at (c # cs) = None"
  proof (rule ccontr)
    assume "md_at (c # cs) \<noteq> None"
    from md_at_head [OF this] Cons.prems show False by auto
  qed
  with Cons show ?case by simp
qed

lemma url_at_colon:
  assumes "url_at s \<noteq> None"
  shows "0x3A \<in> set s"
proof -
  from assms have "take 8 s = js ''https://'' \<or> take 7 s = js ''http://''"
    by (auto simp: url_at_def split: if_splits)
  moreover have "0x3A \<in> set (js ''https://'')" "0x3A \<in> set (js ''http://'')"
    by (simp_all add: js_def)
  ultimately have "0x3A \<in> set (take 8 s) \<or> 0x3A \<in> set (take 7 s)" by metis
  then show ?thesis by (auto dest: in_set_takeD)
qed

lemma urlMatch_no_colon: "0x3A \<notin> set s \<Longrightarrow> urlMatch s = None"
proof (induction s)
  case Nil
  then show ?case by simp
next
  case (Cons c cs)
  have "url_at (c # cs) = None"
  proof (rule ccontr)
    assume "url_at (c # cs) \<noteq> None"
    then have "0x3A \<in> set (c # cs)" by (rule url_at_colon)
    with Cons.prems show False by simp
  qed
  with Cons show ?case by simp
qed

lemma markdownMatch_skip:
  "\<forall>k<length pre. md_at (drop k (pre @ s)) = None \<Longrightarrow>
     markdownMatch (pre @ s) = markdownMatch s"
proof (induction pre)
  case Nil
  then show ?case by simp
next
  case (Cons c pre)
  from Cons.prems have "md_at (drop 0 ((c # pre) @ s)) = None" by blast
  then have here: "md_at (c # pre @ s) = None" by simp
  have "\<forall>k<length pre. md_at (drop k (pre @ s)) = None"
  proof (intro allI impI)
    fix k assume "k < length pre"
    then have "Suc k < length (c # pre)" by simp
    with Cons.prems have "md_at (drop (Suc k) ((c # pre) @ s)) = None" by blast
    then show "md_at (drop k (pre @ s)) = None" by simp
  qed
  from Cons.IH [OF this] here show ?case by simp
qed

lemma md_at_example:
  "md_at (js ''![alt](https://x/y.png)'' @ post) = Some (js ''https://x/y.png'')"
  by (simp add: js_def is_line_terminator_def)

lemma markdownMatch_example:
  "markdownMatch (js ''![alt](https://x/y.png)'' @ post) = Some (js ''https://x/y.png'')"
  by (simp add: js_def is_line_terminator_def)


lemma strip_padding_set: "set d \<subseteq> insert 0x3D (set (strip_padding d))"
proof (cases "length d mod 4 = 0 \<and> d \<noteq> [] \<and> last d = 0x3D")
  case False
  then show ?thesis by (auto simp: strip_padding_def)
next
  case True
  then have d: "d = butlast d @ [0x3D]" by (metis append_butlast_last_id)
  show ?thesis
  proof (cases "butlast d \<noteq> [] \<and> last (butlast d) = 0x3D")
    case False
    with True have "strip_padding d = butlast d" by (auto simp: strip_padding_def)
    with d show ?thesis by (metis set_append list.set(1,2) Un_insert_right sup_bot.right_neutral subset_refl)
  next
    case two: True
    then have "butlast d = butlast (butlast d) @ [0x3D]" by (metis append_butlast_last_id)
    with d have "set d = insert 0x3D (set (butlast (butlast d)))"
      by (metis set_append list.set(1,2) Un_insert_right sup_bot.right_neutral insert_absorb2)
    moreover from True two have "strip_padding d = butlast (butlast d)"
      by (auto simp: strip_padding_def)
    ultimately show ?thesis by simp
  qed
qed

lemma atob_error: "atob s = Inl e \<Longrightarrow> e = InvalidCharacterError"
  by (auto simp: atob_def Let_def split: if_splits option.splits)

lemma atob_chars:
  assumes "atob s = Inr b" and "c \<in> set s"
  shows "is_ascii_whitespace c \<or> b64_value c \<noteq> None \<or> c = 0x3D"
proof (cases "is_ascii_whitespace c \<or> c = 0x3D")
  case True
  then show ?thesis by blast
next
  case False
  let ?d = "filter (\<lambda>c. \<not> is_ascii_whitespace c) s"
  from assms(1) obtain vs where "those (map b64_value (strip_padding ?d)) = Some vs"
    by (auto simp: atob_def Let_def split: if_splits option.splits)
  then have all: "map b64_value (strip_padding ?d) = map Some vs" by (simp add: those_eq_Some)
  from False assms(2) have "c \<in> set ?d" by simp
  with strip_padding_set [of ?d] False have "c \<in> set (strip_padding ?d)" by auto
  then have "b64_value c \<in> set (map b64_value (strip_padding ?d))" by simp
  with all have "b64_value c \<in> set (map Some vs)" by simp
  then show ?thesis by auto
qed

lemma atob_invalid:
  assumes "c \<in> set s" and "\<not> is_ascii_whitespace c" and "b64_value c = None" and "c \<noteq> 0x3D"
  shows "atob s = Inl InvalidCharacterError"
proof (cases "atob s")
  case (Inl e)
  then show ?thesis by (simp add: atob_error)
next
  case (Inr b)
  from atob_chars [OF this assms(1)] assms(2-4) show ?thesis by blast
qed

lemma no_bang_in_base64:
  assumes "atob s = Inr b"
  shows "0x21 \<notin> set s" and "0x3A \<notin> set s"
proof -
  have "\<not> is_ascii_whitespace 0x21" "b64_value 0x21 = None" "(0x21 :: code_unit) \<noteq> 0x3D"
    "\<not> is_ascii_whitespace 0x3A" "b64_value 0x3A = None" "(0x3A :: code_unit) \<noteq> 0x3D"
    by (simp_all add: is_ascii_whitespace_def b64_value_def)
  with atob_chars [OF assms] show "0x21 \<notin> set s" and "0x3A \<notin> set s" by blast+
qed

lemma concat_byteArrays: "concat (byteArrays s offset) = map ucast (drop offset s)"
proof (induction s offset rule: byteArrays.induct)
  case (1 byteCharacters offset)
  show ?case
  proof (cases "offset < length byteCharacters")
    case True
    from "1.IH" [OF True]
    have "concat (byteArrays byteCharacters offset) =
        map ucast (take sliceSize (drop offset byteCharacters)) @
        map ucast (drop (offset + sliceSize) byteCharacters)"
      using True by (subst byteArrays.simps) simp
    also have "\<dots> = map ucast (take sliceSize (drop offset byteCharacters) @
        drop sliceSize (drop offset byteCharacters))"
      by (simp add: add.commute)
    finally show ?thesis by (simp only: append_take_drop_id)
  next
    case False
    then show ?thesis by (subst byteArrays.simps) simp
  qed
qed

lemma b64toBlob_bytes:
  "atob t = Inr bytes \<Longrightarrow>
     b64toBlob t ty = Inr \<lparr>blob_bytes = map ucast bytes, blob_type = ty\<rparr>"
  by (simp add: b64toBlob_def concat_byteArrays)

lemma truthy_match_None [simp]: "truthy_match None = None"
  by simp

lemma parse_content_base64:
  assumes "100 < length t" and "0x20 \<notin> set t" and "atob t = Inr bytes"
  shows "parse_content t = Base64 \<lparr>blob_bytes = map ucast bytes, blob_type = js ''image/png''\<rparr>"
proof -
  from no_bang_in_base64 [OF assms(3)]
  have "markdownMatch t = None" "urlMatch t = None"
    by (simp_all add: markdownMatch_no_bang urlMatch_no_colon)
  with assms show ?thesis by (simp add: parse_content_def b64toBlob_bytes)
qed

lemma those_replicate_Some: "those (replicate n (Some v)) = Some (replicate n v)"
  by (induction n) simp_all

lemma b64_bytes_zeros: "b64_bytes (replicate (4 * n) 0) = replicate (3 * n) 0"
proof (induction n)
  case 0
  then show ?case by simp
next
  case (Suc n)
  have "replicate (4 * Suc n) (0::nat) = 0 # 0 # 0 # 0 # replicate (4 * n) 0"
    by (simp add: replicate_add [symmetric] numeral_eq_Suc)
  moreover have "replicate (3 * Suc n) (0::code_unit) = 0 # 0 # 0 # replicate (3 * n) 0"
    by (simp add: numeral_eq_Suc)
  ultimately show ?case using Suc by simp
qed

lemma strip_padding_unpadded: "d = [] \<or> last d \<noteq> 0x3D \<Longrightarrow> strip_padding d = d"
  by (auto simp: strip_padding_def)

lemma atob_As: "atob (replicate (4 * n) 0x41) = Inr (replicate (3 * n) 0)"
proof -
  have ws: "\<not> is_ascii_whitespace 0x41" by (simp add: is_ascii_whitespace_def)
  have v: "b64_value 0x41 = Some 0" by (simp add: b64_value_def)
  have pad: "strip_padding (replicate (4 * n) 0x41) = replicate (4 * n) 0x41"
    by (cases "n = 0") (simp_all add: strip_padding_unpadded)
  show ?thesis
    by (simp add: atob_def ws pad v those_replicate_Some b64_bytes_zeros)
qed

lemma atob_wrapped_base64: "atob wrapped_base64 = Inr (replicate 90 0)"
proof -
  have "\<not> is_ascii_whitespace 0x41" "is_ascii_whitespace 0x0A"
    by (simp_all add: is_ascii_whitespace_def)
  then have "filter (\<lambda>c. \<not> is_ascii_whitespace c) wrapped_base64 = replicate (4 * 30) 0x41"
    by (simp add: wrapped_base64_def replicate_add [symmetric])
  moreover have "filter (\<lambda>c. \<not> is_ascii_whitespace c) (replicate (4 * 30) 0x41) =
      replicate (4 * 30) 0x41"
    using \<open>\<not> is_ascii_whitespace 0x41\<close> by simp
  ultimately have "atob wrapped_base64 = atob (replicate (4 * 30) 0x41)"
    by (simp only: atob_def)
  also have "\<dots> = Inr (replicate (3 * 30) 0)" by (rule atob_As)
  finally show ?thesis by simp
qed

lemma parse_content_Nil: "parse_content [] = NoImage"
  by (simp add: parse_content_def)

lemma generateSingleFrame_content:
  assumes "API_KEY env = Some (k # ks)"
    and "chat_completions_create env
           \<lparr>imageBase64 = img, mimeType = mime, prompt = action, index = j, total = count\<rparr> =
         Returns (Some content)"
    and "content \<noteq> []"
  shows "generateSingleFrame env img mime action j count =
     (case parse_content content of
        MarkdownImage u \<Rightarrow>
          (Inr (fst (fetchAndCreateBlobUrl env u)),
           ChatRequest \<lparr>imageBase64 = img, mimeType = mime, prompt = action, index = j,
                         total = count\<rparr> # snd (fetchAndCreateBlobUrl env u))
      | RawUrl u \<Rightarrow>
          (Inr (fst (fetchAndCreateBlobUrl env u)),
           ChatRequest \<lparr>imageBase64 = img, mimeType = mime, prompt = action, index = j,
                         total = count\<rparr> # snd (fetchAndCreateBlobUrl env u))
      | Base64 b \<Rightarrow>
          (Inr (createObjectURL env b),
           [ChatRequest \<lparr>imageBase64 = img, mimeType = mime, prompt = action, index = j,
                          total = count\<rparr>])
      | NoImage \<Rightarrow>
          (Inl (ImageNotFound (take 100 content)),
           [ChatRequest \<lparr>imageBase64 = img, mimeType = mime, prompt = action, index = j,
                          total = count\<rparr>]))"
proof -
  from assms(3) obtain c cs where "content = c # cs" by (cases content) auto
  with assms(1,2) show ?thesis
    by (simp add: generateSingleFrame_def getAiClient_def split: resolution.splits prod.splits)
qed

lemma generateSingleFrame_no_key:
  "API_KEY env = None \<or> API_KEY env = Some [] \<Longrightarrow>
     generateSingleFrame env img mime action j count = (Inl ApiKeyNotFound, [])"
  by (auto simp: generateSingleFrame_def getAiClient_def)

lemma generateSingleFrame_errors:
  "fst (generateSingleFrame env img mime action j count) = Inl e \<Longrightarrow>
     e = ApiKeyNotFound \<or> (\<exists>m. e = ServiceFailure m) \<or> e = NoContent \<or>
     (\<exists>p. e = ImageNotFound p)"
  by (auto simp: generateSingleFrame_def getAiClient_def Let_def
      split: option.splits list.splits completion.splits resolution.splits prod.splits)

lemma env_reply_key: "API_KEY (env_reply text) = Some (0x73 # js ''k-1'')"
  by (simp add: env_reply_def env_urls_def js_def)

lemma env_reply_chat: "chat_completions_create (env_reply text) r = Returns (Some text)"
  by (simp add: env_reply_def)

lemma env_reply_fetch: "fetch_blob (env_reply text) u = None"
  by (simp add: env_reply_def env_urls_def)

lemma env_reply_createObjectURL: "createObjectURL (env_reply text) b = js ''blob:1''"
  by (simp add: env_reply_def env_urls_def)

lemma wrapped_base64_chars: "set wrapped_base64 = {0x41, 0x0A}"
  by (auto simp: wrapped_base64_def)

lemma truthy_match_Some: "u \<noteq> [] \<Longrightarrow> truthy_match (Some u) = Some u"
  by (cases u) simp_all

lemma long_url_parse: "parse_content long_url = RawUrl long_url"
proof -
  have "0x21 \<notin> set long_url" by (simp add: long_url_def js_def)
  then have md: "markdownMatch long_url = None" by (rule markdownMatch_no_bang)
  have "\<not> is_whitespace 0x61" by (simp add: is_whitespace_def)
  then have "url_at long_url = Some long_url"
    by (simp add: long_url_def js_def url_at_def url_rest_def takeWhile_replicate)
  moreover have "long_url = 0x68 # tl long_url" by (simp add: long_url_def js_def)
  ultimately have "urlMatch long_url = Some long_url"
    by (metis urlMatch.simps(2) option.simps(5))
  moreover have "long_url \<noteq> []" by (simp add: long_url_def js_def)
  then have "truthy_match (Some long_url) = Some long_url" by (rule truthy_match_Some)
  ultimately show ?thesis using md by (simp add: parse_content_def)
qed

lemma no_whitespace_no_space: "\<forall>c\<in>set t. \<not> is_whitespace c \<Longrightarrow> 0x20 \<notin> set t"
  by (auto simp: is_whitespace_def)










lemma parse_content_MarkdownImage:
  "parse_content s = MarkdownImage u \<longleftrightarrow> truthy_match (markdownMatch s) = Some u"
  by (simp add: parse_content_def split: option.splits sum.splits)

lemma markdownMatch_contains_example:
  "markdownMatch (pre @ js ''![alt](https://x/y.png)'' @ post) \<noteq> None"
proof -
  let ?u = "js ''https://x/y.png''"
  have "pre @ js ''![alt](https://x/y.png)'' @ post =
      pre @ 0x21 # 0x5B # js ''alt'' @ 0x5D # 0x28 # ?u @ 0x29 # post"
    by (simp add: js_def)
  moreover have "\<forall>c\<in>set (js ''alt''). \<not> is_line_terminator c"
    by (simp add: js_def is_line_terminator_def)
  moreover have "\<forall>c\<in>set ?u. \<not> is_line_terminator c"
    by (simp add: js_def is_line_terminator_def)
  ultimately have "\<exists>p alt u rest. pre @ js ''![alt](https://x/y.png)'' @ post =
        p @ 0x21 # 0x5B # alt @ 0x5D # 0x28 # u @ 0x29 # rest \<and>
        (\<forall>c\<in>set alt. \<not> is_line_terminator c) \<and> (\<forall>c\<in>set u. \<not> is_line_terminator c)"
    by blast
  then show ?thesis by (simp only: markdownMatch_matches_iff)
qed

section \<open>Properties of a batch\<close>

lemma run_batch_join:
  obtains order ps where
    "ps = map (\<lambda>j. fst (generateSingleFrame env img mime action j count))
            [i ..< nat (min (int i + int batchSize) count)]"
    "set order = {..<length ps}"
    "fst (run_batch env img mime action count i) = promise_all order ps"
proof -
  define ps where "ps = map (\<lambda>j. fst (generateSingleFrame env img mime action j count))
            [i ..< nat (min (int i + int batchSize) count)]"
  define order where "order = sort_key (\<lambda>p. settle_rank env (i + p)) [0 ..< length ps]"
  have "set order = {..<length ps}"
    by (simp add: order_def lessThan_atLeast0)
  moreover have "fst (run_batch env img mime action count i) = promise_all order ps"
    by (simp add: run_batch_def Let_def comp_def order_def ps_def)
  ultimately show ?thesis using that ps_def by blast
qed

lemma run_batch_settles: "fst (run_batch env img mime action count i) \<noteq> None"
proof -
  obtain order ps where ord: "set order = {..<length ps}"
    and rb: "fst (run_batch env img mime action count i) = promise_all order ps"
    by (rule run_batch_join)
  from ord have "{..<length ps} \<subseteq> set order" by simp
  from promise_all_settles [OF this] rb show ?thesis by simp
qed

lemma run_batch_fulfilled:
  assumes "fst (run_batch env img mime action count i) = Some (Inr vs)"
  shows "map (\<lambda>j. fst (generateSingleFrame env img mime action j count))
           [i ..< nat (min (int i + int batchSize) count)] = map Inr vs"
proof -
  obtain order ps where ps: "ps = map (\<lambda>j. fst (generateSingleFrame env img mime action j count))
            [i ..< nat (min (int i + int batchSize) count)]"
    and ord: "set order = {..<length ps}"
    and rb: "fst (run_batch env img mime action count i) = promise_all order ps"
    by (rule run_batch_join)
  from ord have sub: "{..<length ps} \<subseteq> set order" by simp
  from assms rb have "promise_all order ps = Some (Inr vs)" by simp
  from promise_all_fulfilled [OF this sub] ps show ?thesis by simp
qed

lemma run_batch_rejected:
  assumes "fst (run_batch env img mime action count i) = Some (Inl e)"
  shows "\<exists>j\<in>set [i ..< nat (min (int i + int batchSize) count)].
           fst (generateSingleFrame env img mime action j count) = Inl e"
proof -
  obtain order ps where ps: "ps = map (\<lambda>j. fst (generateSingleFrame env img mime action j count))
            [i ..< nat (min (int i + int batchSize) count)]"
    and ord: "set order = {..<length ps}"
    and rb: "fst (run_batch env img mime action count i) = promise_all order ps"
    by (rule run_batch_join)
  from ord have sub: "set order \<subseteq> {..<length ps}" by simp
  from assms rb have "promise_all order ps = Some (Inl e)" by simp
  from promise_all_rejected [OF this sub] have "Inl e \<in> set ps" .
  with ps show ?thesis by auto
qed

lemma run_batch_log:
  "snd (run_batch env img mime action count i) =
     concat (map (\<lambda>j. snd (generateSingleFrame env img mime action j count))
       [i ..< nat (min (int i + int batchSize) count)])"
  by (simp add: run_batch_def Let_def comp_def)

section \<open>Properties of the loop over the batches\<close>

lemma batches_done:
  "\<not> int i < count \<Longrightarrow> batches env img mime action count signal i urls log = Some (Inr urls, log)"
  by (subst batches.simps) simp

lemma batches_aborted_before:
  "int i < count \<Longrightarrow> aborted signal (i div batchSize) \<Longrightarrow>
     batches env img mime action count signal i urls log = Some (Inl AbortedByUser, log)"
  by (subst batches.simps) simp

lemma batches_rejected:
  "int i < count \<Longrightarrow> \<not> aborted signal (i div batchSize) \<Longrightarrow>
     fst (run_batch env img mime action count i) = Some (Inl e) \<Longrightarrow>
     batches env img mime action count signal i urls log =
       Some (Inl e, log @ snd (run_batch env img mime action count i))"
  by (subst batches.simps, cases "run_batch env img mime action count i") simp

lemma batches_aborted_after:
  "int i < count \<Longrightarrow> \<not> aborted signal (i div batchSize) \<Longrightarrow>
     fst (run_batch env img mime action count i) = Some (Inr batchResults) \<Longrightarrow>
     aborted signal (i div batchSize + 1) \<Longrightarrow>
     batches env img mime action count signal i urls log =
       Some (Inl AbortedByUser, log @ snd (run_batch env img mime action count i))"
  by (subst batches.simps, cases "run_batch env img mime action count i") simp

lemma batches_next:
  "int i < count \<Longrightarrow> \<not> aborted signal (i div batchSize) \<Longrightarrow>
     fst (run_batch env img mime action count i) = Some (Inr batchResults) \<Longrightarrow>
     \<not> aborted signal (i div batchSize + 1) \<Longrightarrow>
     batches env img mime action count signal i urls log =
       batches env img mime action count signal (i + batchSize) (urls @ batchResults)
         (log @ snd (run_batch env img mime action count i))"
  by (subst batches.simps, cases "run_batch env img mime action count i") simp

lemma batches_returns:
  "batches env img mime action count signal i urls log \<noteq> None"
proof (induction env img mime action count signal i urls log rule: batches.induct)
  case (1 env img mime action count signal i urls log)
  let ?rb = "run_batch env img mime action count i"
  show ?case
  proof (cases "int i < count")
    case False
    then show ?thesis by (simp add: batches_done)
  next
    case lt: True
    show ?thesis
    proof (cases "aborted signal (i div batchSize)")
      case True
      with lt show ?thesis by (simp add: batches_aborted_before)
    next
      case nab: False
      from run_batch_settles [of env img mime action count i]
      obtain r where r: "fst ?rb = Some r" by auto
      show ?thesis
      proof (cases r)
        case (Inl e)
        with lt nab r show ?thesis by (simp add: batches_rejected)
      next
        case (Inr br)
        show ?thesis
        proof (cases "aborted signal (i div batchSize + 1)")
          case True
          with lt nab r Inr show ?thesis by (simp add: batches_aborted_after)
        next
          case False
          have "(fst ?rb, snd ?rb) = ?rb" by simp
          from "1.IH" [OF lt nab this r Inr False] lt nab r Inr False
          show ?thesis by (simp add: batches_next)
        qed
      qed
    qed
  qed
qed

lemma batches_fulfilled:
  "batches env img mime action count signal i urls log = Some (Inr res, log') \<Longrightarrow>
     \<exists>rest. res = urls @ rest \<and>
       map (\<lambda>j. fst (generateSingleFrame env img mime action j count)) [i ..< nat count] =
         map Inr rest"
proof (induction env img mime action count signal i urls log rule: batches.induct)
  case (1 env img mime action count signal i urls log)
  let ?rb = "run_batch env img mime action count i"
  let ?hi = "nat (min (int i + int batchSize) count)"
  let ?frame = "\<lambda>j. fst (generateSingleFrame env img mime action j count)"
  show ?case
  proof (cases "int i < count")
    case False
    with "1.prems" show ?thesis by (simp add: batches_done)
  next
    case lt: True
    show ?thesis
    proof (cases "aborted signal (i div batchSize)")
      case True
      with lt "1.prems" show ?thesis by (simp add: batches_aborted_before)
    next
      case nab: False
      from run_batch_settles [of env img mime action count i]
      obtain r where r: "fst ?rb = Some r" by auto
      show ?thesis
      proof (cases r)
        case (Inl e)
        with lt nab r "1.prems" show ?thesis by (simp add: batches_rejected)
      next
        case (Inr br)
        show ?thesis
        proof (cases "aborted signal (i div batchSize + 1)")
          case True
          with lt nab r Inr "1.prems" show ?thesis by (simp add: batches_aborted_after)
        next
          case False
          have pair: "(fst ?rb, snd ?rb) = ?rb" by simp
          from lt nab r Inr False "1.prems"
          have "batches env img mime action count signal (i + batchSize) (urls @ br)
                  (log @ snd ?rb) = Some (Inr res, log')"
            by (simp add: batches_next)
          from "1.IH" [OF lt nab pair r Inr False this]
          obtain rest where rest: "res = (urls @ br) @ rest"
            "map ?frame [i + batchSize ..< nat count] = map Inr rest"
            by blast
          from r Inr have br: "map ?frame [i ..< ?hi] = map Inr br"
            by (simp add: run_batch_fulfilled)
          have split: "[i ..< nat count] = [i ..< ?hi] @ [i + batchSize ..< nat count]"
          proof (cases "int i + int batchSize \<le> count")
            case True
            then have "?hi = i + batchSize" by (simp add: min_def)
            moreover from True have "i + batchSize \<le> nat count" by linarith
            ultimately show ?thesis
              by (metis le_add1 le_Suc_ex upt_add_eq_append)
          next
            case False
            then have "?hi = nat count" by (simp add: min_def)
            moreover from False have "[i + batchSize ..< nat count] = []" by simp
            ultimately show ?thesis by simp
          qed
          have "map ?frame [i ..< nat count] = map Inr (br @ rest)"
            by (simp only: split map_append br rest(2))
          with rest(1) show ?thesis by auto
        qed
      qed
    qed
  qed
qed

text \<open>Every call returns: each request of the model settles, so no join stays pending.\<close>

lemma generateAnimationFrames_returns:
  "generateAnimationFrames env img mime action count signal \<noteq> None"
  by (simp add: generateAnimationFrames_def batches_returns)

section \<open>Runs that end in a rejection or at an abort check\<close>

lemma aborted_mono: "aborted signal b \<Longrightarrow> b \<le> b' \<Longrightarrow> aborted signal b'"
  by (cases "(signal, b)" rule: aborted.cases) auto

lemma run_batch_all_fulfilled:
  assumes "\<forall>j\<in>set [i ..< nat (min (int i + int batchSize) count)].
             \<not> isl (fst (generateSingleFrame env img mime action j count))"
  shows "\<exists>br. fst (run_batch env img mime action count i) = Some (Inr br)"
proof -
  from run_batch_settles [of env img mime action count i]
  obtain r where r: "fst (run_batch env img mime action count i) = Some r" by auto
  show ?thesis
  proof (cases r)
    case (Inl e)
    with r run_batch_rejected [of env img mime action count i e] assms show ?thesis
      by (metis sum.disc(1))
  next
    case (Inr br)
    with r show ?thesis by blast
  qed
qed

lemma run_batch_one_error:
  assumes j: "j \<in> set [i ..< nat (min (int i + int batchSize) count)]"
    and e: "fst (generateSingleFrame env img mime action j count) = Inl e"
    and others: "\<forall>j'\<in>set [i ..< nat (min (int i + int batchSize) count)].
       isl (fst (generateSingleFrame env img mime action j' count)) \<longrightarrow>
       fst (generateSingleFrame env img mime action j' count) = Inl e"
  shows "fst (run_batch env img mime action count i) = Some (Inl e)"
proof -
  from run_batch_settles [of env img mime action count i]
  obtain r where r: "fst (run_batch env img mime action count i) = Some r" by auto
  show ?thesis
  proof (cases r)
    case (Inl e')
    with r run_batch_rejected [of env img mime action count i e']
    obtain j' where j': "j' \<in> set [i ..< nat (min (int i + int batchSize) count)]"
      "fst (generateSingleFrame env img mime action j' count) = Inl e'" by blast
    from j'(2) have "isl (fst (generateSingleFrame env img mime action j' count))" by simp
    with others j'(1) have "fst (generateSingleFrame env img mime action j' count) = Inl e"
      by blast
    with j'(2) have "e' = e" by simp
    with r Inl show ?thesis by simp
  next
    case (Inr br)
    with r have "map (\<lambda>j. fst (generateSingleFrame env img mime action j count))
           [i ..< nat (min (int i + int batchSize) count)] = map Inr br"
      by (simp add: run_batch_fulfilled)
    then have "fst (generateSingleFrame env img mime action j count) \<in> set (map Inr br)"
      using j by (metis (no_types, lifting) image_eqI set_map)
    with e show ?thesis by auto
  qed
qed


lemma upt_split_batch:
  "i + batchSize \<le> m \<Longrightarrow> [i ..< m] = [i ..< i + batchSize] @ [i + batchSize ..< m]"
  by (metis le_add1 le_Suc_ex upt_add_eq_append)

lemma batches_abort_at:
  assumes "k < b" and "int (batchSize * (b - 1)) < count"
    and "\<forall>j < b * batchSize. int j < count \<longrightarrow>
           \<not> isl (fst (generateSingleFrame env img mime action j count))"
  shows "batches env img mime action count (Some (AbortedFrom b)) (k * batchSize) urls log =
           Some (Inl AbortedByUser,
             log @ concat (map (\<lambda>j. snd (generateSingleFrame env img mime action j count))
               [k * batchSize ..< min (b * batchSize) (nat count)]))"
  using assms(1)
proof (induction "b - k" arbitrary: k urls log)
  case 0
  then show ?case by simp
next
  case (Suc n)
  let ?i = "k * batchSize"
  let ?signal = "Some (AbortedFrom b)"
  let ?rb = "run_batch env img mime action count ?i"
  let ?hi = "nat (min (int ?i + int batchSize) count)"
  let ?events = "\<lambda>j. snd (generateSingleFrame env img mime action j count)"
  from Suc.prems assms(2) have lt: "int ?i < count"
    by (simp add: batchSize_def; linarith?)
  have idiv: "?i div batchSize = k" by (simp add: batchSize_def)
  from Suc.prems have nab: "\<not> aborted ?signal (?i div batchSize)"
    by (simp add: idiv)
  have "\<forall>j\<in>set [?i ..< ?hi]. \<not> isl (fst (generateSingleFrame env img mime action j count))"
  proof
    fix j assume "j \<in> set [?i ..< ?hi]"
    then have "j < b * batchSize" "int j < count"
      using Suc.prems by (auto simp: batchSize_def)
    with assms(3) show "\<not> isl (fst (generateSingleFrame env img mime action j count))"
      by blast
  qed
  from run_batch_all_fulfilled [OF this]
  obtain br where br: "fst ?rb = Some (Inr br)" by blast
  have log: "snd ?rb = concat (map ?events [?i ..< ?hi])"
    by (rule run_batch_log)
  show ?case
  proof (cases "b = Suc k")
    case True
    then have "aborted ?signal (?i div batchSize + 1)" by (simp add: idiv)
    from batches_aborted_after [OF lt nab br this]
    have "batches env img mime action count ?signal ?i urls log =
            Some (Inl AbortedByUser, log @ snd ?rb)" .
    moreover from True lt have "?hi = min (b * batchSize) (nat count)"
      by (simp add: batchSize_def; linarith?)
    ultimately show ?thesis by (simp only: log)
  next
    case False
    with Suc.prems have kb: "Suc k < b" by simp
    then have nab': "\<not> aborted ?signal (?i div batchSize + 1)" by (simp add: idiv)
    from batches_next [OF lt nab br nab']
    have step: "batches env img mime action count ?signal ?i urls log =
            batches env img mime action count ?signal (?i + batchSize) (urls @ br)
              (log @ snd ?rb)" .
    from Suc.hyps(2) kb have "n = b - Suc k" by simp
    from Suc.hyps(1) [OF this kb, of "urls @ br" "log @ snd ?rb"]
    have "batches env img mime action count ?signal (Suc k * batchSize) (urls @ br)
            (log @ snd ?rb) =
          Some (Inl AbortedByUser, (log @ snd ?rb) @ concat (map ?events
               [Suc k * batchSize ..< min (b * batchSize) (nat count)]))" .
    moreover have "Suc k * batchSize = ?i + batchSize" by simp
    ultimately
    have ih: "batches env img mime action count ?signal (?i + batchSize) (urls @ br)
            (log @ snd ?rb) =
          Some (Inl AbortedByUser, (log @ snd ?rb) @ concat (map ?events
               [?i + batchSize ..< min (b * batchSize) (nat count)]))"
      by (simp only:)
    from kb assms(2) have next_le: "int ?i + int batchSize < count"
      by (simp add: batchSize_def; linarith?)
    then have hi: "?hi = ?i + batchSize" by (simp add: batchSize_def)
    from kb next_le have "?i + batchSize \<le> min (b * batchSize) (nat count)"
      by (simp add: batchSize_def; linarith?)
    from upt_split_batch [OF this]
    have split: "[?i ..< min (b * batchSize) (nat count)] =
            [?i ..< ?i + batchSize] @ [?i + batchSize ..< min (b * batchSize) (nat count)]" .
    have "(log @ snd ?rb) @ concat (map ?events
              [?i + batchSize ..< min (b * batchSize) (nat count)]) =
          log @ concat (map ?events [?i ..< min (b * batchSize) (nat count)])"
      by (subst split) (simp only: log hi map_append concat_append append_assoc)
    with step ih show ?thesis by (simp only:)
  qed
qed


lemma batches_fail_at:
  assumes j: "int j < count"
    and e: "fst (generateSingleFrame env img mime action j count) = Inl e"
    and nab: "\<not> aborted signal (j div batchSize)"
    and others: "\<forall>j' < nat (min (int (j div batchSize * batchSize + batchSize)) count).
       isl (fst (generateSingleFrame env img mime action j' count)) \<longrightarrow>
       j' div batchSize = j div batchSize \<and>
       fst (generateSingleFrame env img mime action j' count) = Inl e"
    and k: "k \<le> j div batchSize"
  shows "batches env img mime action count signal (k * batchSize) urls log =
           Some (Inl e,
             log @ concat (map (\<lambda>j. snd (generateSingleFrame env img mime action j count))
               [k * batchSize ..<
                nat (min (int (j div batchSize * batchSize + batchSize)) count)]))"
  using k
proof (induction "j div batchSize - k" arbitrary: k urls log)
  case 0
  let ?i = "k * batchSize"
  let ?rb = "run_batch env img mime action count ?i"
  let ?hi = "nat (min (int ?i + int batchSize) count)"
  from 0 have kj: "k = j div batchSize" by simp
  from kj j have lt: "int ?i < count" by (simp add: batchSize_def; linarith?)
  have idiv: "?i div batchSize = k" by (simp add: batchSize_def)
  from nab kj idiv have nab0: "\<not> aborted signal (?i div batchSize)" by simp
  have hi: "?hi = nat (min (int (j div batchSize * batchSize + batchSize)) count)"
    by (simp add: kj)
  from kj j have mem: "j \<in> set [?i ..< ?hi]"
    by (simp add: batchSize_def; linarith?)
  have "\<forall>j'\<in>set [?i ..< ?hi].
       isl (fst (generateSingleFrame env img mime action j' count)) \<longrightarrow>
       fst (generateSingleFrame env img mime action j' count) = Inl e"
  proof (intro ballI impI)
    fix j' assume "j' \<in> set [?i ..< ?hi]"
      and "isl (fst (generateSingleFrame env img mime action j' count))"
    moreover from this(1) hi
    have "j' < nat (min (int (j div batchSize * batchSize + batchSize)) count)" by simp
    ultimately show "fst (generateSingleFrame env img mime action j' count) = Inl e"
      using others by metis
  qed
  from run_batch_one_error [OF mem e this] have "fst ?rb = Some (Inl e)" .
  from batches_rejected [OF lt nab0 this]
  show ?case by (simp only: run_batch_log hi)
next
  case (Suc n)
  let ?i = "k * batchSize"
  let ?rb = "run_batch env img mime action count ?i"
  let ?hi = "nat (min (int ?i + int batchSize) count)"
  let ?top = "nat (min (int (j div batchSize * batchSize + batchSize)) count)"
  let ?events = "\<lambda>j. snd (generateSingleFrame env img mime action j count)"
  from Suc.hyps(2) have kj: "Suc k \<le> j div batchSize" by simp
  then have below: "?i + batchSize \<le> j" by (simp add: batchSize_def; linarith?)
  with j have lt: "int ?i < count" by linarith
  have idiv: "?i div batchSize = k" by (simp add: batchSize_def)
  from kj have "k \<le> j div batchSize" "k + 1 \<le> j div batchSize" by simp_all
  with nab have "\<not> aborted signal k" "\<not> aborted signal (k + 1)"
    by (blast dest: aborted_mono)+
  then have nab0: "\<not> aborted signal (?i div batchSize)"
    and nab1: "\<not> aborted signal (?i div batchSize + 1)"
    by (simp_all add: idiv)
  from below j have hi: "?hi = ?i + batchSize" by (simp add: batchSize_def; linarith?)
  have "\<forall>j'\<in>set [?i ..< ?hi]. \<not> isl (fst (generateSingleFrame env img mime action j' count))"
  proof
    fix j' assume "j' \<in> set [?i ..< ?hi]"
    with hi have j': "j' < ?i + batchSize" by simp
    with kj have "j' div batchSize < j div batchSize" by (simp add: batchSize_def; linarith?)
    moreover from j' below j have "j' < ?top" by (simp add: batchSize_def; linarith?)
    ultimately show "\<not> isl (fst (generateSingleFrame env img mime action j' count))"
      using others by (metis less_irrefl)
  qed
  from run_batch_all_fulfilled [OF this]
  obtain br where br: "fst ?rb = Some (Inr br)" by blast
  from batches_next [OF lt nab0 br nab1]
  have step: "batches env img mime action count signal ?i urls log =
            batches env img mime action count signal (?i + batchSize) (urls @ br)
              (log @ snd ?rb)" .
  from Suc.hyps(2) have "n = j div batchSize - Suc k" by simp
  from Suc.hyps(1) [OF this kj, of "urls @ br" "log @ snd ?rb"]
  have "batches env img mime action count signal (Suc k * batchSize) (urls @ br)
            (log @ snd ?rb) =
          Some (Inl e, (log @ snd ?rb) @ concat (map ?events [Suc k * batchSize ..< ?top]))" .
  moreover have "Suc k * batchSize = ?i + batchSize" by simp
  ultimately
  have ih: "batches env img mime action count signal (?i + batchSize) (urls @ br)
            (log @ snd ?rb) =
          Some (Inl e, (log @ snd ?rb) @ concat (map ?events [?i + batchSize ..< ?top]))"
    by (simp only:)
  from below j have "?i + batchSize \<le> ?top" by (simp add: batchSize_def; linarith?)
  from upt_split_batch [OF this]
  have split: "[?i ..< ?top] = [?i ..< ?i + batchSize] @ [?i + batchSize ..< ?top]" .
  have "(log @ snd ?rb) @ concat (map ?events [?i + batchSize ..< ?top]) =
          log @ concat (map ?events [?i ..< ?top])"
    by (subst split) (simp only: run_batch_log hi map_append concat_append append_assoc)
  with ih have "batches env img mime action count signal (?i + batchSize) (urls @ br)
            (log @ snd ?rb) = Some (Inl e, log @ concat (map ?events [?i ..< ?top]))"
    by metis
  with step show ?case by (rule trans)
qed




section \<open>The schedule does not change what a frame returns\<close>

lemma fetchAndCreateBlobUrl_settle_rank:
  "fetchAndCreateBlobUrl (env\<lparr>settle_rank := r\<rparr>) u = fetchAndCreateBlobUrl env u"
  by (simp add: fetchAndCreateBlobUrl_def cong: option.case_cong)

lemma generateSingleFrame_settle_rank:
  "generateSingleFrame (env\<lparr>settle_rank := r\<rparr>) img mime action j count =
     generateSingleFrame env img mime action j count"
  by (simp add: generateSingleFrame_def getAiClient_def fetchAndCreateBlobUrl_settle_rank
      cong: sum.case_cong completion.case_cong option.case_cong list.case_cong
        resolution.case_cong prod.case_cong)

section \<open>The claims about generateAnimationFrames\<close>

text \<open>
  C1. A call of generateAnimationFrames with \<open>count = N\<close> that returns, returns exactly
  \<open>N\<close> results, and the result at position \<open>j\<close> is what generateSingleFrame returned for
  index \<open>j\<close>, for \<open>j\<close> from \<open>0\<close> to \<open>N - 1\<close>. This holds on every schedule \<open>r\<close> of the
  requests, that is, in whatever order the requests of a batch complete.
\<close>

theorem frames_in_index_order:
  assumes "generateAnimationFrames (env\<lparr>settle_rank := r\<rparr>) img mime action count signal =
             Some (Inr urls, log)"
  shows "length urls = nat count \<and>
         (\<forall>j<nat count. fst (generateSingleFrame env img mime action j count) = Inr (urls ! j))"
proof -
  let ?frame = "\<lambda>j. fst (generateSingleFrame env img mime action j count)"
  from assms have "batches (env\<lparr>settle_rank := r\<rparr>) img mime action count signal 0 [] [] =
      Some (Inr urls, log)"
    by (simp only: generateAnimationFrames_def)
  from batches_fulfilled [OF this]
  have m: "map ?frame [0 ..< nat count] = map Inr urls"
    by (simp only: generateSingleFrame_settle_rank append_Nil) blast
  have "length (map ?frame [0 ..< nat count]) = length (map Inr urls :: (error + js_string) list)"
    by (simp only: m)
  then have len: "length urls = nat count" by simp
  have "?frame j = Inr (urls ! j)" if "j < nat count" for j
  proof -
    from that have "map ?frame [0 ..< nat count] ! j = ?frame j" by simp
    moreover from that len have "map Inr urls ! j = (Inr (urls ! j) :: error + js_string)" by simp
    ultimately show ?thesis by (simp only: m)
  qed
  with len show ?thesis by blast
qed

theorem frames_in_index_order_witness:
  "generateAnimationFrames (env_urls\<lparr>settle_rank := (\<lambda>j. j mod 2)\<rparr>) [] [] [] 4 None =
     Some (Inr [js ''https://h/0'', js ''https://h/1'', js ''https://h/2'', js ''https://h/3''],
       [ChatRequest \<lparr>imageBase64 = [], mimeType = [], prompt = [], index = 0, total = 4\<rparr>,
        FetchRequest (js ''https://h/0''),
        ChatRequest \<lparr>imageBase64 = [], mimeType = [], prompt = [], index = 1, total = 4\<rparr>,
        FetchRequest (js ''https://h/1''),
        ChatRequest \<lparr>imageBase64 = [], mimeType = [], prompt = [], index = 2, total = 4\<rparr>,
        FetchRequest (js ''https://h/2''),
        ChatRequest \<lparr>imageBase64 = [], mimeType = [], prompt = [], index = 3, total = 4\<rparr>,
        FetchRequest (js ''https://h/3'')]) \<and>
   length [js ''https://h/0'', js ''https://h/1'', js ''https://h/2'', js ''https://h/3''] = nat 4 \<and>
   fst (generateSingleFrame env_urls [] [] [] 2 4) = Inr (js ''https://h/2'')"
proof -
  have run: "generateAnimationFrames (env_urls\<lparr>settle_rank := (\<lambda>j. j mod 2)\<rparr>) [] [] [] 4 None =
     Some (Inr [js ''https://h/0'', js ''https://h/1'', js ''https://h/2'', js ''https://h/3''],
       [ChatRequest \<lparr>imageBase64 = [], mimeType = [], prompt = [], index = 0, total = 4\<rparr>,
        FetchRequest (js ''https://h/0''),
        ChatRequest \<lparr>imageBase64 = [], mimeType = [], prompt = [], index = 1, total = 4\<rparr>,
        FetchRequest (js ''https://h/1''),
        ChatRequest \<lparr>imageBase64 = [], mimeType = [], prompt = [], index = 2, total = 4\<rparr>,
        FetchRequest (js ''https://h/2''),
        ChatRequest \<lparr>imageBase64 = [], mimeType = [], prompt = [], index = 3, total = 4\<rparr>,
        FetchRequest (js ''https://h/3'')])"
    by code_simp
  from frames_in_index_order [OF run]
  have len: "length [js ''https://h/0'', js ''https://h/1'', js ''https://h/2'', js ''https://h/3''] = nat 4"
    and nth: "\<forall>j<nat 4. fst (generateSingleFrame env_urls [] [] [] j 4) =
        Inr ([js ''https://h/0'', js ''https://h/1'', js ''https://h/2'', js ''https://h/3''] ! j)"
    by blast+
  from nth have "fst (generateSingleFrame env_urls [] [] [] 2 4) = Inr (js ''https://h/2'')"
    by simp
  with run len show ?thesis by blast
qed

text \<open>
  C9. When \<open>count\<close> is zero or negative, generateAnimationFrames returns the empty
  sequence, issues no request and raises no error, whatever the signal: also when the
  signal is aborted from the start.
\<close>

theorem zero_count_returns_empty:
  "count \<le> 0 \<Longrightarrow>
     generateAnimationFrames env img mime action count signal = Some (Inr [], [])"
  by (simp add: generateAnimationFrames_def batches_done)

theorem zero_count_returns_empty_witness:
  "(0::int) \<le> 0 \<and>
   generateAnimationFrames env_urls [] [] [] 0 (Some (AbortedFrom 0)) = Some (Inr [], []) \<and>
   generateAnimationFrames env_urls [] [] [] (- 2) (Some (AbortedFrom 0)) = Some (Inr [], [])"
  using zero_count_returns_empty [of 0 env_urls "[]" "[]" "[]" "Some (AbortedFrom 0)"]
    zero_count_returns_empty [of "- 2" env_urls "[]" "[]" "[]" "Some (AbortedFrom 0)"]
  by simp

text \<open>
  C3. Let the signal read aborted from boundary \<open>b\<close> on: \<open>b = 0\<close> is before the first
  batch starts, and \<open>b = k + 1\<close> is between batch \<open>k\<close> and batch \<open>k + 1\<close> (or after the last
  batch). If there is a batch at all, the run reaches boundary \<open>b\<close> (the boundary exists
  and every frame before it returned), then generateAnimationFrames raises the
  cancellation error: the caller gets no result sequence, also no partial one. The
  requests issued are those of the frames before the boundary, so none when \<open>b = 0\<close>.
\<close>

theorem cancellation_at_a_boundary:
  assumes "0 < count" and "int (batchSize * b) < count + int batchSize"
    and "\<forall>j < batchSize * b. int j < count \<longrightarrow>
           \<not> isl (fst (generateSingleFrame env img mime action j count))"
  shows "generateAnimationFrames env img mime action count (Some (AbortedFrom b)) =
           Some (Inl AbortedByUser,
             concat (map (\<lambda>j. snd (generateSingleFrame env img mime action j count))
               [0 ..< min (batchSize * b) (nat count)])) \<and>
         (b = 0 \<longrightarrow>
            generateAnimationFrames env img mime action count (Some (AbortedFrom b)) =
              Some (Inl AbortedByUser, []))"
proof (cases "b = 0")
  case True
  from assms(1) have "int 0 < count" by simp
  moreover have "aborted (Some (AbortedFrom 0)) (0 div batchSize)" by simp
  ultimately have "batches env img mime action count (Some (AbortedFrom 0)) 0 [] [] =
      Some (Inl AbortedByUser, [])"
    by (rule batches_aborted_before)
  with True show ?thesis by (simp add: generateAnimationFrames_def)
next
  case False
  then have "0 < b" by simp
  moreover from False assms(2) have "int (batchSize * (b - 1)) < count"
    by (simp add: batchSize_def; linarith?)
  moreover from assms(3)
  have "\<forall>j < b * batchSize. int j < count \<longrightarrow>
           \<not> isl (fst (generateSingleFrame env img mime action j count))"
    by (simp add: mult.commute)
  ultimately
  have "batches env img mime action count (Some (AbortedFrom b)) (0 * batchSize) [] [] =
           Some (Inl AbortedByUser,
             [] @ concat (map (\<lambda>j. snd (generateSingleFrame env img mime action j count))
               [0 * batchSize ..< min (b * batchSize) (nat count)]))"
    by (rule batches_abort_at)
  with False show ?thesis by (simp add: generateAnimationFrames_def mult.commute)
qed

theorem cancellation_at_a_boundary_witness:
  "generateAnimationFrames env_urls [] [] [] 4 (Some (AbortedFrom 0)) =
     Some (Inl AbortedByUser, []) \<and>
   generateAnimationFrames env_urls [] [] [] 4 (Some (AbortedFrom 1)) =
     Some (Inl AbortedByUser,
       [ChatRequest \<lparr>imageBase64 = [], mimeType = [], prompt = [], index = 0, total = 4\<rparr>,
        FetchRequest (js ''https://h/0''),
        ChatRequest \<lparr>imageBase64 = [], mimeType = [], prompt = [], index = 1, total = 4\<rparr>,
        FetchRequest (js ''https://h/1''),
        ChatRequest \<lparr>imageBase64 = [], mimeType = [], prompt = [], index = 2, total = 4\<rparr>,
        FetchRequest (js ''https://h/2'')])"
proof -
  let ?frame = "\<lambda>j. generateSingleFrame env_urls [] [] [] j 4"
  have count: "(0::int) < 4" by simp
  have f0: "\<not> isl (fst (?frame 0))" by code_simp
  have f1: "\<not> isl (fst (?frame 1))" by code_simp
  have f2: "\<not> isl (fst (?frame 2))" by code_simp
  have frames: "\<not> isl (fst (?frame j))" if "j < 3" for j
  proof -
    from that have "j = 0 \<or> j = 1 \<or> j = 2" by arith
    with f0 f1 f2 show ?thesis by blast
  qed
  have b0: "int (batchSize * 0) < 4 + int batchSize" by (simp add: batchSize_def)
  have none: "\<forall>j < batchSize * 0. int j < 4 \<longrightarrow> \<not> isl (fst (?frame j))" by simp
  from cancellation_at_a_boundary [OF count b0 none]
  have first: "generateAnimationFrames env_urls [] [] [] 4 (Some (AbortedFrom 0)) =
     Some (Inl AbortedByUser, [])"
    by blast
  have b1: "int (batchSize * 1) < 4 + int batchSize" by (simp add: batchSize_def)
  have three: "\<forall>j < batchSize * 1. int j < 4 \<longrightarrow> \<not> isl (fst (?frame j))"
    using frames by (simp add: batchSize_def)
  from cancellation_at_a_boundary [OF count b1 three]
  have "generateAnimationFrames env_urls [] [] [] 4 (Some (AbortedFrom 1)) =
     Some (Inl AbortedByUser, concat (map (\<lambda>j. snd (?frame j)) [0 ..< min (batchSize * 1) (nat 4)]))"
    by blast
  moreover have "concat (map (\<lambda>j. snd (?frame j)) [0 ..< min (batchSize * 1) (nat 4)]) =
       [ChatRequest \<lparr>imageBase64 = [], mimeType = [], prompt = [], index = 0, total = 4\<rparr>,
        FetchRequest (js ''https://h/0''),
        ChatRequest \<lparr>imageBase64 = [], mimeType = [], prompt = [], index = 1, total = 4\<rparr>,
        FetchRequest (js ''https://h/1''),
        ChatRequest \<lparr>imageBase64 = [], mimeType = [], prompt = [], index = 2, total = 4\<rparr>,
        FetchRequest (js ''https://h/2'')]"
    by code_simp
  ultimately show ?thesis using first by (simp only:) 
qed




section \<open>The claims about generateSingleFrame\<close>




text \<open>
  C6. For every URL matched by the markdown strategy or by the URL strategy, if fetching
  that URL fails, fetchAndCreateBlobUrl returns the URL itself and the frame does not
  fail: generateSingleFrame returns the matched URL, after the chat request and the one
  fetch.
\<close>

theorem fetch_failure_returns_the_url:
  assumes "API_KEY env = Some (k # ks)"
    and "chat_completions_create env
           \<lparr>imageBase64 = img, mimeType = mime, prompt = action, index = j, total = count\<rparr> =
         Returns (Some content)"
    and "parse_content content = MarkdownImage u \<or> parse_content content = RawUrl u"
    and "fetch_blob env u = None"
  shows "fetchAndCreateBlobUrl env u = (u, [FetchRequest u]) \<and>
         generateSingleFrame env img mime action j count =
           (Inr u,
            [ChatRequest \<lparr>imageBase64 = img, mimeType = mime, prompt = action, index = j,
                           total = count\<rparr>,
             FetchRequest u])"
proof -
  from assms(4) have f: "fetchAndCreateBlobUrl env u = (u, [FetchRequest u])"
    by (simp add: fetchAndCreateBlobUrl_def)
  from assms(3) have "content \<noteq> []" by (auto simp: parse_content_Nil)
  from generateSingleFrame_content [OF assms(1,2) this] assms(3) f
  show ?thesis by auto
qed


theorem fetch_failure_returns_the_url_witness:
  "generateSingleFrame env_urls [] [] [] 2 4 =
     (Inr (js ''https://h/2''),
      [ChatRequest \<lparr>imageBase64 = [], mimeType = [], prompt = [], index = 2, total = 4\<rparr>,
       FetchRequest (js ''https://h/2'')]) \<and>
   generateSingleFrame (env_reply (js ''![f](https://h/f.png)'')) [] [] [] 0 1 =
     (Inr (js ''https://h/f.png''),
      [ChatRequest \<lparr>imageBase64 = [], mimeType = [], prompt = [], index = 0, total = 1\<rparr>,
       FetchRequest (js ''https://h/f.png'')])"
proof -
  have key: "API_KEY env_urls = Some (0x73 # js ''k-1'')"
    "API_KEY (env_reply (js ''![f](https://h/f.png)'')) = Some (0x73 # js ''k-1'')"
    by (simp_all add: env_reply_def env_urls_def js_def)
  have reply: "chat_completions_create env_urls
      \<lparr>imageBase64 = [], mimeType = [], prompt = [], index = 2, total = 4\<rparr> =
        Returns (Some (js ''https://h/2''))"
    "chat_completions_create (env_reply (js ''![f](https://h/f.png)''))
      \<lparr>imageBase64 = [], mimeType = [], prompt = [], index = 0, total = 1\<rparr> =
        Returns (Some (js ''![f](https://h/f.png)''))"
    by (simp_all add: env_reply_def env_urls_def js_def)
  have parse: "parse_content (js ''https://h/2'') = MarkdownImage (js ''https://h/2'') \<or>
      parse_content (js ''https://h/2'') = RawUrl (js ''https://h/2'')"
    "parse_content (js ''![f](https://h/f.png)'') = MarkdownImage (js ''https://h/f.png'') \<or>
      parse_content (js ''![f](https://h/f.png)'') = RawUrl (js ''https://h/f.png'')"
    by code_simp+
  have fetch: "fetch_blob env_urls (js ''https://h/2'') = None"
    "fetch_blob (env_reply (js ''![f](https://h/f.png)'')) (js ''https://h/f.png'') = None"
    by (simp_all add: env_reply_def env_urls_def)
  from fetch_failure_returns_the_url [OF key(1) reply(1) parse(1) fetch(1)]
    fetch_failure_returns_the_url [OF key(2) reply(2) parse(2) fetch(2)]
  show ?thesis by blast
qed

text \<open>
  C4, as amended. For every reply that is not empty, in which neither the markdown
  strategy nor the URL strategy matches, and that is at most 100 code units long, or
  contains a space, or is not valid base64 for \<open>atob\<close>, generateSingleFrame fails with
  the could-not-find-image error, whose message holds the first 100 code units of the
  reply between \<open>Could not find image in response: \<close> and \<open>...\<close>.
\<close>

theorem unparsable_reply_is_reported:
  assumes "API_KEY env = Some (k # ks)"
    and "chat_completions_create env
           \<lparr>imageBase64 = img, mimeType = mime, prompt = action, index = j, total = count\<rparr> =
         Returns (Some content)"
    and "content \<noteq> []"
    and "truthy_match (markdownMatch content) = None"
    and "truthy_match (urlMatch content) = None"
    and "length content \<le> 100 \<or> 0x20 \<in> set content \<or> atob content = Inl InvalidCharacterError"
  shows "generateSingleFrame env img mime action j count =
           (Inl (ImageNotFound (take 100 content)),
            [ChatRequest \<lparr>imageBase64 = img, mimeType = mime, prompt = action, index = j,
                           total = count\<rparr>]) \<and>
         message (ImageNotFound (take 100 content)) =
           js ''Could not find image in response: '' @ take 100 content @ js ''...''"
proof -
  from assms(4-6) have "parse_content content = NoImage"
    by (auto simp: parse_content_def b64toBlob_def)
  with generateSingleFrame_content [OF assms(1-3)] show ?thesis by simp
qed

theorem unparsable_reply_is_reported_witness:
  "generateSingleFrame (env_reply (js ''I cannot draw that.'')) [] [] [] 0 1 =
     (Inl (ImageNotFound (js ''I cannot draw that.'')),
      [ChatRequest \<lparr>imageBase64 = [], mimeType = [], prompt = [], index = 0, total = 1\<rparr>]) \<and>
   message (ImageNotFound (js ''I cannot draw that.'')) =
     js ''Could not find image in response: I cannot draw that....''"
proof -
  let ?text = "js ''I cannot draw that.''"
  have "?text \<noteq> []" by (simp add: js_def)
  moreover have "truthy_match (markdownMatch ?text) = None"
    "truthy_match (urlMatch ?text) = None"
    by code_simp+
  moreover have "length ?text \<le> 100 \<or> 0x20 \<in> set ?text \<or>
      atob ?text = Inl InvalidCharacterError"
    by (simp add: js_def)
  ultimately have "generateSingleFrame (env_reply ?text) [] [] [] 0 1 =
           (Inl (ImageNotFound (take 100 ?text)),
            [ChatRequest \<lparr>imageBase64 = [], mimeType = [], prompt = [], index = 0,
                           total = 1\<rparr>]) \<and>
         message (ImageNotFound (take 100 ?text)) =
           js ''Could not find image in response: '' @ take 100 ?text @ js ''...''"
    by (rule unparsable_reply_is_reported [OF env_reply_key env_reply_chat])
  moreover have "take 100 ?text = ?text" by (simp add: js_def)
  moreover have "js ''Could not find image in response: '' @ ?text @ js ''...'' =
      js ''Could not find image in response: I cannot draw that....''"
    by (simp add: js_def)
  ultimately show ?thesis by simp
qed

text \<open>
  The claim C4 as stated fails. The text \<open>wrapped_base64\<close> has no whitespace-free run
  of 100 code units (the longest has 60), no URL and no markdown image, but it is longer
  than 100 code units and has no space, and \<open>atob\<close> skips the line feed: the frame
  returns an object URL. The empty reply has none of the three either and fails with the
  no-content error, not with the could-not-find-image error.
\<close>

theorem unparsable_reply_counterexample:
  "spec_longest_run wrapped_base64 = 60 \<and>
   markdownMatch wrapped_base64 = None \<and>
   urlMatch wrapped_base64 = None \<and>
   generateSingleFrame (env_reply wrapped_base64) [] [] [] 0 1 =
     (Inr (js ''blob:1''),
      [ChatRequest \<lparr>imageBase64 = [], mimeType = [], prompt = [], index = 0, total = 1\<rparr>]) \<and>
   spec_longest_run [] = 0 \<and>
   generateSingleFrame (env_reply []) [] [] [] 0 1 =
     (Inl NoContent,
      [ChatRequest \<lparr>imageBase64 = [], mimeType = [], prompt = [], index = 0, total = 1\<rparr>])"
proof -
  have run: "spec_longest_run wrapped_base64 = 60" by code_simp
  have md: "markdownMatch wrapped_base64 = None"
    by (rule markdownMatch_no_bang) (simp add: wrapped_base64_chars)
  have url: "urlMatch wrapped_base64 = None"
    by (rule urlMatch_no_colon) (simp add: wrapped_base64_chars)
  have "100 < length wrapped_base64" "0x20 \<notin> set wrapped_base64"
    by (simp_all add: wrapped_base64_chars) (simp add: wrapped_base64_def)
  from parse_content_base64 [OF this atob_wrapped_base64]
  have parse: "parse_content wrapped_base64 =
      Base64 \<lparr>blob_bytes = map ucast (replicate 90 (0 :: code_unit)), blob_type = js ''image/png''\<rparr>" .
  have "wrapped_base64 \<noteq> []" by (simp add: wrapped_base64_def)
  from generateSingleFrame_content [OF env_reply_key env_reply_chat this] parse
  have frame: "generateSingleFrame (env_reply wrapped_base64) [] [] [] 0 1 =
     (Inr (js ''blob:1''),
      [ChatRequest \<lparr>imageBase64 = [], mimeType = [], prompt = [], index = 0, total = 1\<rparr>])"
    by (simp add: env_reply_createObjectURL)
  have empty: "generateSingleFrame (env_reply []) [] [] [] 0 1 =
     (Inl NoContent,
      [ChatRequest \<lparr>imageBase64 = [], mimeType = [], prompt = [], index = 0, total = 1\<rparr>])"
    by (simp add: generateSingleFrame_def getAiClient_def env_reply_key env_reply_chat)
  have "spec_longest_run [] = 0" by (simp add: spec_longest_run_def)
  with run md url frame empty show ?thesis by blast
qed

text \<open>
  C10, as amended. generateSingleFrame never fails with the exception of \<open>atob\<close>. For
  every reply longer than 100 code units, without a space, that is not valid base64 and
  in which neither the markdown strategy nor the URL strategy matches, the decoding
  failure is caught and the frame fails with the could-not-find-image error.
\<close>

theorem decode_failure_is_caught:
  "fst (generateSingleFrame env img mime action j count) \<noteq> Inl InvalidCharacterError \<and>
   (API_KEY env = Some (k # ks) \<and>
    chat_completions_create env
      \<lparr>imageBase64 = img, mimeType = mime, prompt = action, index = j, total = count\<rparr> =
        Returns (Some content) \<and>
    100 < length content \<and> 0x20 \<notin> set content \<and>
    atob content = Inl InvalidCharacterError \<and>
    truthy_match (markdownMatch content) = None \<and>
    truthy_match (urlMatch content) = None \<longrightarrow>
      generateSingleFrame env img mime action j count =
        (Inl (ImageNotFound (take 100 content)),
         [ChatRequest \<lparr>imageBase64 = img, mimeType = mime, prompt = action, index = j,
                        total = count\<rparr>]))"
proof (intro conjI impI)
  show "fst (generateSingleFrame env img mime action j count) \<noteq> Inl InvalidCharacterError"
    using generateSingleFrame_errors [of env img mime action j count InvalidCharacterError]
    by auto
next
  assume a: "API_KEY env = Some (k # ks) \<and>
    chat_completions_create env
      \<lparr>imageBase64 = img, mimeType = mime, prompt = action, index = j, total = count\<rparr> =
        Returns (Some content) \<and>
    100 < length content \<and> 0x20 \<notin> set content \<and>
    atob content = Inl InvalidCharacterError \<and>
    truthy_match (markdownMatch content) = None \<and>
    truthy_match (urlMatch content) = None"
  then have "content \<noteq> []" by auto
  moreover from a have "parse_content content = NoImage"
    by (auto simp: parse_content_def b64toBlob_def)
  moreover from a have "API_KEY env = Some (k # ks)"
    and "chat_completions_create env
      \<lparr>imageBase64 = img, mimeType = mime, prompt = action, index = j, total = count\<rparr> =
        Returns (Some content)" by blast+
  ultimately show "generateSingleFrame env img mime action j count =
        (Inl (ImageNotFound (take 100 content)),
         [ChatRequest \<lparr>imageBase64 = img, mimeType = mime, prompt = action, index = j,
                        total = count\<rparr>])"
    using generateSingleFrame_content [of env k ks img mime action j count content] by simp
qed


theorem decode_failure_is_caught_witness:
  "fst (generateSingleFrame (env_reply (replicate 500 0x21)) [] [] [] 0 1) \<noteq>
     Inl InvalidCharacterError \<and>
   generateSingleFrame (env_reply (replicate 500 0x21)) [] [] [] 0 1 =
     (Inl (ImageNotFound (replicate 100 0x21)),
      [ChatRequest \<lparr>imageBase64 = [], mimeType = [], prompt = [], index = 0, total = 1\<rparr>])"
proof -
  let ?text = "replicate 500 (0x21 :: code_unit)"
  have "\<not> is_ascii_whitespace 0x21" "b64_value 0x21 = None" "(0x21 :: code_unit) \<noteq> 0x3D"
    by (simp_all add: is_ascii_whitespace_def b64_value_def)
  moreover have "0x21 \<in> set ?text" by simp
  ultimately have bad: "atob ?text = Inl InvalidCharacterError"
    by (metis atob_invalid)
  have md: "truthy_match (markdownMatch ?text) = None"
    by (simp add: markdownMatch_no_bracket)
  have url: "truthy_match (urlMatch ?text) = None"
    by (simp add: urlMatch_no_colon)
  have "100 < length ?text" "0x20 \<notin> set ?text" by simp_all
  with bad md url decode_failure_is_caught
    [of "env_reply ?text" "[]" "[]" "[]" 0 1 "0x73" "js ''k-1''" ?text]
  have "fst (generateSingleFrame (env_reply ?text) [] [] [] 0 1) \<noteq> Inl InvalidCharacterError \<and>
    generateSingleFrame (env_reply ?text) [] [] [] 0 1 =
     (Inl (ImageNotFound (take 100 ?text)),
      [ChatRequest \<lparr>imageBase64 = [], mimeType = [], prompt = [], index = 0, total = 1\<rparr>])"
    using env_reply_key [of ?text] env_reply_chat [of ?text] by blast
  moreover have "take 100 ?text = replicate 100 0x21" by simp
  ultimately show ?thesis by simp
qed

text \<open>
  The claim C10 as stated fails. \<open>long_url\<close> is longer than 100 code units, has no space
  and is not valid base64, but it is resolved by the URL strategy before any decoding:
  the frame returns (here, the fetch failing, the URL itself) and raises no error.
\<close>

theorem decode_failure_counterexample:
  "length long_url = 108 \<and> 0x20 \<notin> set long_url \<and>
   atob long_url = Inl InvalidCharacterError \<and>
   generateSingleFrame (env_reply long_url) [] [] [] 0 1 =
     (Inr long_url,
      [ChatRequest \<lparr>imageBase64 = [], mimeType = [], prompt = [], index = 0, total = 1\<rparr>,
       FetchRequest long_url])"
proof -
  have len: "length long_url = 108" by (simp add: long_url_def js_def)
  have sp: "0x20 \<notin> set long_url" by (simp add: long_url_def js_def)
  have "\<not> is_ascii_whitespace 0x3A" "b64_value 0x3A = None" "(0x3A :: code_unit) \<noteq> 0x3D"
    by (simp_all add: is_ascii_whitespace_def b64_value_def)
  moreover have "0x3A \<in> set long_url" by (simp add: long_url_def js_def)
  ultimately have bad: "atob long_url = Inl InvalidCharacterError"
    by (metis atob_invalid)
  have "long_url \<noteq> []" by (simp add: long_url_def js_def)
  from generateSingleFrame_content [OF env_reply_key env_reply_chat this] long_url_parse
  have "generateSingleFrame (env_reply long_url) [] [] [] 0 1 =
     (Inr long_url,
      [ChatRequest \<lparr>imageBase64 = [], mimeType = [], prompt = [], index = 0, total = 1\<rparr>,
       FetchRequest long_url])"
    by (simp add: fetchAndCreateBlobUrl_def env_reply_fetch)
  with len sp bad show ?thesis by blast
qed

text \<open>
  C8, as amended. A reply that contains the markdown image \<open>![alt](https://x/y.png)\<close> is
  resolved by the markdown strategy exactly when the leftmost match of the markdown
  pattern in the reply does not have an empty URL; when no match of the pattern starts
  before the image, it is resolved to the URL \<open>https://x/y.png\<close>. A reply that is only
  \<open>https://x/y.png\<close> is resolved by the URL strategy. A reply that is one token of 500
  code units without whitespace and that is valid base64 for \<open>atob\<close> is resolved by the
  base64 strategy, to a blob of type \<open>image/png\<close> that holds the decoded bytes.
\<close>

theorem example_replies:
  "((\<exists>u. parse_content (pre @ js ''![alt](https://x/y.png)'' @ post) = MarkdownImage u) \<longleftrightarrow>
      markdownMatch (pre @ js ''![alt](https://x/y.png)'' @ post) \<noteq> Some []) \<and>
   ((\<forall>k<length pre. md_at (drop k (pre @ js ''![alt](https://x/y.png)'' @ post)) = None) \<longrightarrow>
      parse_content (pre @ js ''![alt](https://x/y.png)'' @ post) =
        MarkdownImage (js ''https://x/y.png'')) \<and>
   parse_content (js ''https://x/y.png'') = RawUrl (js ''https://x/y.png'') \<and>
   (length t = 500 \<and> (\<forall>c\<in>set t. \<not> is_whitespace c) \<and> atob t = Inr bytes \<longrightarrow>
      parse_content t =
        Base64 \<lparr>blob_bytes = map ucast bytes, blob_type = js ''image/png''\<rparr>)"
proof (intro conjI impI)
  let ?reply = "pre @ js ''![alt](https://x/y.png)'' @ post"
  from markdownMatch_contains_example [of pre post]
  obtain v where v: "markdownMatch ?reply = Some v" by blast
  show "(\<exists>u. parse_content ?reply = MarkdownImage u) \<longleftrightarrow> markdownMatch ?reply \<noteq> Some []"
  proof (cases v)
    case Nil
    with v show ?thesis by (simp add: parse_content_MarkdownImage)
  next
    case (Cons c cs)
    with v show ?thesis by (simp add: parse_content_MarkdownImage)
  qed
next
  assume "\<forall>k<length pre. md_at (drop k (pre @ js ''![alt](https://x/y.png)'' @ post)) = None"
  then have "markdownMatch (pre @ js ''![alt](https://x/y.png)'' @ post) =
      markdownMatch (js ''![alt](https://x/y.png)'' @ post)"
    by (rule markdownMatch_skip)
  also have "\<dots> = Some (js ''https://x/y.png'')" by (rule markdownMatch_example)
  finally have "truthy_match (markdownMatch (pre @ js ''![alt](https://x/y.png)'' @ post)) =
      Some (js ''https://x/y.png'')"
    by (simp add: truthy_match_Some js_def)
  then show "parse_content (pre @ js ''![alt](https://x/y.png)'' @ post) =
        MarkdownImage (js ''https://x/y.png'')"
    by (simp add: parse_content_def)
next
  show "parse_content (js ''https://x/y.png'') = RawUrl (js ''https://x/y.png'')"
    by code_simp
next
  assume a: "length t = 500 \<and> (\<forall>c\<in>set t. \<not> is_whitespace c) \<and> atob t = Inr bytes"
  then have "100 < length t" by simp
  moreover from a have "0x20 \<notin> set t" by (simp add: no_whitespace_no_space)
  moreover from a have "atob t = Inr bytes" by simp
  ultimately show "parse_content t =
        Base64 \<lparr>blob_bytes = map ucast bytes, blob_type = js ''image/png''\<rparr>"
    by (rule parse_content_base64)
qed

theorem example_replies_witness:
  "parse_content (js ''Here: ![alt](https://x/y.png) done'') =
     MarkdownImage (js ''https://x/y.png'') \<and>
   parse_content (js ''![a](u1) ![alt](https://x/y.png)'') = MarkdownImage (js ''u1'') \<and>
   parse_content (js ''![a![alt](https://x/y.png)'') = MarkdownImage (js ''https://x/y.png'') \<and>
   parse_content (js ''https://x/y.png'') = RawUrl (js ''https://x/y.png'') \<and>
   parse_content (replicate 500 0x41) =
     Base64 \<lparr>blob_bytes = replicate 375 0, blob_type = js ''image/png''\<rparr>"
proof -
  let ?pre = "js ''Here: ''" and ?post = "js '' done''"
  let ?t = "replicate 500 (0x41 :: code_unit)"
  have first: "\<forall>k<length ?pre. md_at (drop k (?pre @ js ''![alt](https://x/y.png)'' @ ?post)) = None"
  proof (intro allI impI)
    fix k assume "k < length ?pre"
    then have "k = 0 \<or> k = 1 \<or> k = 2 \<or> k = 3 \<or> k = 4 \<or> k = 5" by (auto simp: js_def)
    then show "md_at (drop k (?pre @ js ''![alt](https://x/y.png)'' @ ?post)) = None"
      by (auto simp: js_def)
  qed
  have "\<not> is_whitespace 0x41" by (simp add: is_whitespace_def)
  then have ws: "\<forall>c\<in>set ?t. \<not> is_whitespace c" by simp
  have dec: "atob ?t = Inr (replicate 375 0)" using atob_As [of 125] by simp
  have len: "length ?t = 500" by simp
  from example_replies [of ?pre ?post ?t "replicate 375 0"] first len ws dec
  have "parse_content (?pre @ js ''![alt](https://x/y.png)'' @ ?post) =
        MarkdownImage (js ''https://x/y.png'') \<and>
      parse_content (js ''https://x/y.png'') = RawUrl (js ''https://x/y.png'') \<and>
      parse_content ?t =
        Base64 \<lparr>blob_bytes = map ucast (replicate 375 (0 :: code_unit)),
                blob_type = js ''image/png''\<rparr>"
    by blast
  moreover have "?pre @ js ''![alt](https://x/y.png)'' @ ?post =
      js ''Here: ![alt](https://x/y.png) done''"
    by (simp add: js_def)
  ultimately have old: "parse_content (js ''Here: ![alt](https://x/y.png) done'') =
     MarkdownImage (js ''https://x/y.png'') \<and>
   parse_content (js ''https://x/y.png'') = RawUrl (js ''https://x/y.png'') \<and>
   parse_content (replicate 500 0x41) =
     Base64 \<lparr>blob_bytes = replicate 375 0, blob_type = js ''image/png''\<rparr>"
    by simp
  have second: "parse_content (js ''![a](u1) ![alt](https://x/y.png)'') = MarkdownImage (js ''u1'')"
  proof -
    let ?r = "js ''![a](u1) ![alt](https://x/y.png)''"
    have r: "js ''![a](u1) '' @ js ''![alt](https://x/y.png)'' @ [] = ?r" by (simp add: js_def)
    have m: "markdownMatch ?r = Some (js ''u1'')" by code_simp
    then have "markdownMatch ?r \<noteq> Some []" by (simp add: js_def)
    with example_replies [of "js ''![a](u1) ''" "[]"] r
    obtain u where u: "parse_content ?r = MarkdownImage u" by metis
    then have "truthy_match (markdownMatch ?r) = Some u"
      by (simp only: parse_content_MarkdownImage)
    with m have "u = js ''u1''" by (simp add: js_def)
    with u show ?thesis by simp
  qed
  have third: "parse_content (js ''![a![alt](https://x/y.png)'') =
      MarkdownImage (js ''https://x/y.png'')"
  proof -
    let ?r = "js ''![a![alt](https://x/y.png)''"
    have r: "js ''![a'' @ js ''![alt](https://x/y.png)'' @ [] = ?r" by (simp add: js_def)
    have m: "markdownMatch ?r = Some (js ''https://x/y.png'')" by code_simp
    then have "markdownMatch ?r \<noteq> Some []" by (simp add: js_def)
    with example_replies [of "js ''![a''" "[]"] r
    obtain u where u: "parse_content ?r = MarkdownImage u" by metis
    then have "truthy_match (markdownMatch ?r) = Some u"
      by (simp only: parse_content_MarkdownImage)
    with m have "u = js ''https://x/y.png''" by (simp add: js_def)
    with u show ?thesis by simp
  qed
  from old second third show ?thesis by (simp only: simp_thms)
qed

text \<open>
  The claim C8 as stated fails in two places. A reply can contain the markdown image and
  still be resolved by the URL strategy: in \<open>![]()![alt](https://x/y.png)\<close> the leftmost
  match of the markdown pattern is \<open>![]()\<close>, whose URL is empty, so the first test fails
  and the URL pattern then matches \<open>https://x/y.png)\<close>, closing parenthesis included.
  And a token of 500 code units without whitespace need not be base64: for 500 times
  \<open>!\<close> the decoding fails and no image is found.
\<close>

theorem example_replies_counterexample:
  "parse_content (js ''![]()![alt](https://x/y.png)'') = RawUrl (js ''https://x/y.png)'') \<and>
   length (replicate 500 (0x21 :: code_unit)) = 500 \<and>
   \<not> is_whitespace 0x21 \<and>
   parse_content (replicate 500 0x21) = NoImage"
proof -
  let ?t = "replicate 500 (0x21 :: code_unit)"
  have a: "parse_content (js ''![]()![alt](https://x/y.png)'') = RawUrl (js ''https://x/y.png)'')"
    by code_simp
  have "\<not> is_ascii_whitespace 0x21" "b64_value 0x21 = None" "(0x21 :: code_unit) \<noteq> 0x3D"
    by (simp_all add: is_ascii_whitespace_def b64_value_def)
  moreover have "0x21 \<in> set ?t" by simp
  ultimately have "atob ?t = Inl InvalidCharacterError" by (metis atob_invalid)
  then have "parse_content ?t = NoImage"
    by (simp add: parse_content_def markdownMatch_no_bracket urlMatch_no_colon b64toBlob_def)
  moreover have "\<not> is_whitespace 0x21" by (simp add: is_whitespace_def)
  ultimately show ?thesis using a by simp
qed

section \<open>The claim about the credential\<close>

text \<open>
  C7, as amended. When \<open>API_KEY\<close> is missing from the environment (unset or empty),
  checkApiKey returns what the host's \<open>window.aistudio.hasSelectedApiKey()\<close> returns,
  and false when the host has none or the call throws; every call of generateSingleFrame
  fails with the configuration error and issues no request; and every call of
  generateAnimationFrames for at least one frame, with a signal that is not aborted when
  the call starts, fails with the configuration error and issues no request.
\<close>

theorem missing_credential:
  assumes "API_KEY env = None \<or> API_KEY env = Some []"
  shows "(checkApiKey env \<longleftrightarrow> aistudio env = HasSelectedApiKey (Answers True)) \<and>
         generateSingleFrame env img mime action j count = (Inl ApiKeyNotFound, []) \<and>
         (0 < count \<and> \<not> aborted signal 0 \<longrightarrow>
            generateAnimationFrames env img mime action count signal =
              Some (Inl ApiKeyNotFound, []))"
proof (intro conjI impI)
  from assms show "checkApiKey env \<longleftrightarrow> aistudio env = HasSelectedApiKey (Answers True)"
    by (auto simp: checkApiKey_def split: aistudio_host.splits host_answer.splits)
next
  from assms show "generateSingleFrame env img mime action j count = (Inl ApiKeyNotFound, [])"
    by (rule generateSingleFrame_no_key)
next
  assume run: "0 < count \<and> \<not> aborted signal 0"
  let ?frame = "\<lambda>j. generateSingleFrame env img mime action j count"
  from assms have frame: "?frame j = (Inl ApiKeyNotFound, [])" for j
    by (rule generateSingleFrame_no_key)
  from run have j: "int 0 < count" by simp
  have e: "fst (?frame 0) = Inl ApiKeyNotFound" by (simp add: frame)
  from run have nab: "\<not> aborted signal (0 div batchSize)" by simp
  have others: "\<forall>j' < nat (min (int (0 div batchSize * batchSize + batchSize)) count).
       isl (fst (?frame j')) \<longrightarrow>
       j' div batchSize = 0 div batchSize \<and> fst (?frame j') = Inl ApiKeyNotFound"
    by (auto simp: frame batchSize_def)
  have "(0::nat) \<le> 0 div batchSize" by simp
  from batches_fail_at [OF j e nab others this, of "[]" "[]"]
  show "generateAnimationFrames env img mime action count signal = Some (Inl ApiKeyNotFound, [])"
    by (simp add: generateAnimationFrames_def frame)
qed

theorem missing_credential_witness:
  "\<not> checkApiKey (env_urls\<lparr>API_KEY := None\<rparr>) \<and>
   generateSingleFrame (env_urls\<lparr>API_KEY := None\<rparr>) [] [] [] 0 4 = (Inl ApiKeyNotFound, []) \<and>
   generateAnimationFrames (env_urls\<lparr>API_KEY := None\<rparr>) [] [] [] 4 None =
     Some (Inl ApiKeyNotFound, []) \<and>
   generateAnimationFrames (env_urls\<lparr>API_KEY := Some []\<rparr>) [] [] [] 4 None =
     Some (Inl ApiKeyNotFound, [])"
proof -
  have "API_KEY (env_urls\<lparr>API_KEY := None\<rparr>) = None \<or>
      API_KEY (env_urls\<lparr>API_KEY := None\<rparr>) = Some []" by simp
  from missing_credential [OF this, of "[]" "[]" "[]" 0 4 None]
  have "\<not> checkApiKey (env_urls\<lparr>API_KEY := None\<rparr>) \<and>
   generateSingleFrame (env_urls\<lparr>API_KEY := None\<rparr>) [] [] [] 0 4 = (Inl ApiKeyNotFound, []) \<and>
   generateAnimationFrames (env_urls\<lparr>API_KEY := None\<rparr>) [] [] [] 4 None =
     Some (Inl ApiKeyNotFound, [])"
    by (simp add: env_urls_def)
  moreover have "API_KEY (env_urls\<lparr>API_KEY := Some []\<rparr>) = None \<or>
      API_KEY (env_urls\<lparr>API_KEY := Some []\<rparr>) = Some []" by simp
  from missing_credential [OF this, of "[]" "[]" "[]" 0 4 None]
  have "generateAnimationFrames (env_urls\<lparr>API_KEY := Some []\<rparr>) [] [] [] 4 None =
     Some (Inl ApiKeyNotFound, [])"
    by simp
  ultimately show ?thesis by blast
qed

text \<open>
  The claim C7 as stated fails. With no key in the environment, checkApiKey returns true
  on a host whose \<open>hasSelectedApiKey\<close> answers true. And a generation call does not
  fail with the configuration error when it has nothing to generate (it returns the
  empty sequence) or when the signal is already aborted (it raises the cancellation
  error).
\<close>

theorem missing_credential_counterexample:
  "API_KEY env_studio = None \<and> checkApiKey env_studio \<and>
   generateAnimationFrames env_studio [] [] [] 0 None = Some (Inr [], []) \<and>
   generateAnimationFrames env_studio [] [] [] 4 (Some (AbortedFrom 0)) =
     Some (Inl AbortedByUser, [])"
  by code_simp

end
